theory Spec2Isabelle
  imports Main "HOL-Library.Multiset"
begin

section \<open>Strings\<close>

text \<open>
  Strings are lists of characters; a character outside ASCII is held as the bytes of its
  UTF-8 encoding. \<open>s.startsWith(p)\<close> compares the first characters of \<open>s\<close> with \<open>p\<close>.
\<close>

definition startsWith :: "string \<Rightarrow> string \<Rightarrow> bool" where
  "startsWith s p = (take (length p) s = p)"

text \<open>
  What \<open>String.prototype.trim\<close> strips from both ends: the white space and the line
  terminators of ECMAScript, which are U+0009 to U+000D, U+0020, U+00A0, U+1680, U+2000 to
  U+200A, U+2028, U+2029, U+202F, U+205F, U+3000 and U+FEFF, each listed here as its UTF-8
  encoding.
\<close>

definition whiteSpace :: "string list" where
  "whiteSpace =
     [[CHR 0x09], [CHR 0x0A], [CHR 0x0B], [CHR 0x0C], [CHR 0x0D], [CHR 0x20],
      [CHR 0xC2, CHR 0xA0],
      [CHR 0xE1, CHR 0x9A, CHR 0x80],
      [CHR 0xE2, CHR 0x80, CHR 0x80], [CHR 0xE2, CHR 0x80, CHR 0x81],
      [CHR 0xE2, CHR 0x80, CHR 0x82], [CHR 0xE2, CHR 0x80, CHR 0x83],
      [CHR 0xE2, CHR 0x80, CHR 0x84], [CHR 0xE2, CHR 0x80, CHR 0x85],
      [CHR 0xE2, CHR 0x80, CHR 0x86], [CHR 0xE2, CHR 0x80, CHR 0x87],
      [CHR 0xE2, CHR 0x80, CHR 0x88], [CHR 0xE2, CHR 0x80, CHR 0x89],
      [CHR 0xE2, CHR 0x80, CHR 0x8A],
      [CHR 0xE2, CHR 0x80, CHR 0xA8], [CHR 0xE2, CHR 0x80, CHR 0xA9],
      [CHR 0xE2, CHR 0x80, CHR 0xAF],
      [CHR 0xE2, CHR 0x81, CHR 0x9F],
      [CHR 0xE3, CHR 0x80, CHR 0x80],
      [CHR 0xEF, CHR 0xBB, CHR 0xBF]]"

text \<open>
  Stripping from the front every leading occurrence of one of the given non-empty strings,
  until none of them is a prefix of what is left.
\<close>

function stripStart :: "string list \<Rightarrow> string \<Rightarrow> string" where
  "stripStart ws s =
     (case find (\<lambda>w. w \<noteq> [] \<and> startsWith s w) ws of
        None \<Rightarrow> s
      | Some w \<Rightarrow> stripStart ws (drop (length w) s))"
  by pat_completeness auto
termination
proof (relation "measure (\<lambda>(ws, s). length s)")
  show "wf (measure (\<lambda>(ws, s). length s))" by simp
next
  fix ws :: "string list" and s w :: string
  assume "find (\<lambda>w. w \<noteq> [] \<and> startsWith s w) ws = Some w"
  then have "w \<noteq> []" and "take (length w) s = w"
    by (auto simp: find_Some_iff startsWith_def)
  then have "s \<noteq> []" by auto
  with \<open>w \<noteq> []\<close> show "((ws, drop (length w) s), (ws, s)) \<in> measure (\<lambda>(ws, s). length s)"
    by simp
qed

definition trimStart :: "string \<Rightarrow> string" where
  "trimStart s = stripStart whiteSpace s"

definition trimEnd :: "string \<Rightarrow> string" where
  "trimEnd s = rev (stripStart (map rev whiteSpace) (rev s))"

definition trim :: "string \<Rightarrow> string" where
  "trim s = trimEnd (trimStart s)"

text \<open>
  \<open>s.split(sep)\<close> for a one-character separator: the pieces between the separators, always
  at least one piece.
\<close>

fun split :: "char \<Rightarrow> string \<Rightarrow> string list" where
  "split sep [] = [[]]"
| "split sep (c # cs) =
     (let ps = split sep cs in if c = sep then [] # ps else (c # hd ps) # tl ps)"

text \<open>\<open>parts.join(sep)\<close>\<close>

fun join :: "string \<Rightarrow> string list \<Rightarrow> string" where
  "join sep [] = []"
| "join sep [p] = p"
| "join sep (p # q # ps) = p @ sep @ join sep (q # ps)"

text \<open>\<open>s.includes(p)\<close>\<close>

fun includesStr :: "string \<Rightarrow> string \<Rightarrow> bool" where
  "includesStr [] p = (p = [])"
| "includesStr (c # cs) p = (startsWith (c # cs) p \<or> includesStr cs p)"

text \<open>Decimal rendering of a number inside a template string.\<close>

definition digit :: "nat \<Rightarrow> char" where
  "digit d = char_of (of_char CHR ''0'' + d)"

fun decimal :: "nat \<Rightarrow> string" where
  "decimal n = (if n < 10 then [digit n] else decimal (n div 10) @ [digit (n mod 10)])"

definition decimalInt :: "int \<Rightarrow> string" where
  "decimalInt i = (if i < 0 then CHR ''-'' # decimal (nat (- i)) else decimal (nat i))"

text \<open>
  A JavaScript call either throws an \<open>Error\<close>, of which the model keeps the message, or
  returns a value.
\<close>

datatype 'a res = Thrown string | Returned 'a

section \<open>Parsing \<open>changeset_variables\<close>\<close>

text \<open>
  The object \<open>changesetVariables\<close>, from variable name to raw value.
  \<open>obj[key] = value\<close> on an object literal stores an own property, except for the key
  \<open>__proto__\<close>: assigning a string to it is ignored by JavaScript.
\<close>

type_synonym variables = "string \<rightharpoonup> string"

definition assign :: "variables \<Rightarrow> string \<Rightarrow> string \<Rightarrow> variables" where
  "assign obj k v = (if k = ''__proto__'' then obj else obj(k \<mapsto> v))"

definition invalidFormat :: "string \<Rightarrow> string" where
  "invalidFormat trimmed =
     ''Invalid changeset_variables format. Expected KEY=VALUE on each line, got: '' @ trimmed"

text \<open>The body of the loop over the lines (\<open>run\<close>, lines 377 to 383).\<close>

definition parseLine :: "variables \<Rightarrow> string \<Rightarrow> variables res" where
  "parseLine vars line =
     (let trimmed = trim line in
      if trimmed = [] \<or> startsWith trimmed ''#'' then Returned vars
      else
        (let parts = split CHR ''='' trimmed; key = hd parts; valueParts = tl parts in
         if key = [] \<or> length valueParts = 0 then Thrown (invalidFormat trimmed)
         else Returned (assign vars (trim key) (trim (join ''='' valueParts)))))"

fun parseLines :: "variables \<Rightarrow> string list \<Rightarrow> variables res" where
  "parseLines vars [] = Returned vars"
| "parseLines vars (line # lines) =
     (case parseLine vars line of
        Thrown m \<Rightarrow> Thrown m
      | Returned vars' \<Rightarrow> parseLines vars' lines)"

text \<open>
  Lines 372 to 386 of \<open>run\<close>: \<open>null\<close> (here \<open>None\<close>) unless the input is non-empty after
  trimming, otherwise the object filled line by line.
\<close>

definition parseVariables :: "string \<Rightarrow> variables option res" where
  "parseVariables changesetVariablesInput =
     (if changesetVariablesInput \<noteq> [] \<and> trim changesetVariablesInput \<noteq> [] then
        (case parseLines Map.empty (split CHR 0x0A (trim changesetVariablesInput)) of
           Thrown m \<Rightarrow> Thrown m
         | Returned vars \<Rightarrow> Returned (Some vars))
      else Returned None)"

text \<open>
  The parsing rule in the words of the specification, to be compared with
  \<open>parseVariables\<close>: the effective lines are the trimmed lines that are neither blank nor
  comments; the key of a line is what is left of its first \<open>=\<close>, its value all that is right
  of it, both trimmed; the variable set maps every key to the value of the last line that
  has it. The rule is parameterised by which effective lines are rejected.
\<close>

definition effectiveLines :: "string \<Rightarrow> string list" where
  "effectiveLines raw =
     filter (\<lambda>t. t \<noteq> [] \<and> hd t \<noteq> CHR ''#'') (map trim (split CHR 0x0A (trim raw)))"

definition keyOf :: "string \<Rightarrow> string" where
  "keyOf t = trim (takeWhile (\<lambda>c. c \<noteq> CHR ''='') t)"

definition valueOf :: "string \<Rightarrow> string" where
  "valueOf t = trim (drop 1 (dropWhile (\<lambda>c. c \<noteq> CHR ''='') t))"

definition variablesSpec :: "(string \<Rightarrow> bool) \<Rightarrow> string \<Rightarrow> variables option res" where
  "variablesSpec rejected raw =
     (if trim raw = [] then Returned None
      else
        (case find rejected (effectiveLines raw) of
           Some t \<Rightarrow> Thrown (invalidFormat t)
         | None \<Rightarrow>
             Returned (Some (foldl (\<lambda>vars t. vars(keyOf t \<mapsto> valueOf t)) Map.empty
               (effectiveLines raw)))))"

text \<open>The specification rejects a line that has no \<open>=\<close>.\<close>

definition noEquals :: "string \<Rightarrow> bool" where
  "noEquals t = (CHR ''='' \<notin> set t)"

text \<open>The source also rejects a line whose key is empty, that is, one that starts with \<open>=\<close>.\<close>

definition noEqualsOrNoKey :: "string \<Rightarrow> bool" where
  "noEqualsOrNoKey t = (CHR ''='' \<notin> set t \<or> hd t = CHR ''='')"

section \<open>PayloadInjector\<close>

text \<open>
  Modelled from the spec: the \<open>VariableEntry\<close> of section 3, an entry of a changeset
  document's variable collection; \<open>entry_environment = None\<close> is the global scope. The
  injector is not part of \<open>src/index.js\<close>, whose \<open>buildYamlPayload\<close> only wraps the raw file
  content; the functions \<open>injectYamlVariables\<close> and \<open>injectJsonVariables\<close> that the
  repository's tests exercise are missing from the sources.
\<close>

record 'e variable_entry =
  name :: string
  entry_value :: string
  maskValue :: bool
  entry_environment :: "'e option"

text \<open>
  Modelled from the spec: a changeset document, as far as section 4.2 speaks of it, is its
  variable collection together with all its other fields.
\<close>

record ('e, 'd) document =
  variableCollection :: "'e variable_entry list"
  otherFields :: 'd

text \<open>Modelled from the spec: the two document dialects of section 4.2.\<close>

datatype format = YAML | JSON

text \<open>
  Modelled from the spec: one step of \<open>inject\<close> (section 4.2, steps 1 to 3), for one
  \<open>(name, value)\<close> of the VariableSet: scan the entries with that name, take \<open>maskValue\<close>
  true if any of them has it true, remove them all and append the one new global entry.
\<close>

definition injectOne :: "'e variable_entry list \<Rightarrow> string \<times> string \<Rightarrow> 'e variable_entry list" where
  "injectOne entries nv =
     (let matching = filter (\<lambda>e. name e = fst nv) entries;
          mask = list_ex maskValue matching
      in filter (\<lambda>e. name e \<noteq> fst nv) entries @
         [\<lparr>name = fst nv, entry_value = snd nv, maskValue = mask, entry_environment = None\<rparr>])"

text \<open>
  Modelled from the spec: \<open>inject(document, format, variables)\<close> of section 4.2. The
  VariableSet is the ordered list of its \<open>(name, value)\<close> pairs and the steps run in that
  order; the format selects the serialisation only, the merge is the same for both.
\<close>

definition inject ::
  "('e, 'd) document \<Rightarrow> format \<Rightarrow> (string \<times> string) list \<Rightarrow> ('e, 'd) document" where
  "inject doc fmt variables =
     doc\<lparr>variableCollection := foldl injectOne (variableCollection doc) variables\<rparr>"

section \<open>FileResolver\<close>

text \<open>
  What \<open>resolveFiles\<close> reads from outside: the matches of \<open>globSync(pattern, { nodir: true })\<close>,
  \<open>fs.existsSync\<close>, \<open>path.resolve\<close>, \<open>path.basename\<close>, and the order of
  \<open>String.prototype.localeCompare\<close> (negative, zero or positive), which belongs to the
  runtime's locale data and is therefore a parameter.
\<close>

record fileSystem =
  globSync :: "string \<Rightarrow> string list"
  existsSync :: "string \<Rightarrow> bool"
  pathResolve :: "string \<Rightarrow> string"
  pathBasename :: "string \<Rightarrow> string"
  localeCompare :: "string \<Rightarrow> string \<Rightarrow> int"

text \<open>\<open>/[*?[\]{}]/.test(pattern)\<close>\<close>

definition isGlobPattern :: "string \<Rightarrow> bool" where
  "isGlobPattern pattern = list_ex (\<lambda>c. c \<in> set ''*?[]{}'') pattern"

text \<open>\<open>changesetFile.replace(/\\/g, '/')\<close>\<close>

definition forwardSlashes :: "string \<Rightarrow> string" where
  "forwardSlashes s = map (\<lambda>c. if c = CHR 0x5C then CHR ''/'' else c) s"

text \<open>
  \<open>Array.prototype.sort(compareFn)\<close> is a stable sort; for a consistent comparator its
  result is the one of this insertion sort, which puts an element before the first later
  element that does not compare smaller.
\<close>

fun insertSorted :: "('a \<Rightarrow> 'a \<Rightarrow> int) \<Rightarrow> 'a \<Rightarrow> 'a list \<Rightarrow> 'a list" where
  "insertSorted cmp x [] = [x]"
| "insertSorted cmp x (y # ys) =
     (if cmp x y \<le> 0 then x # y # ys else y # insertSorted cmp x ys)"

definition sortWith :: "('a \<Rightarrow> 'a \<Rightarrow> int) \<Rightarrow> 'a list \<Rightarrow> 'a list" where
  "sortWith cmp xs = foldr (insertSorted cmp) xs []"

text \<open>\<open>(a, b) => path.basename(a).localeCompare(path.basename(b))\<close>\<close>

definition byBasename :: "fileSystem \<Rightarrow> string \<Rightarrow> string \<Rightarrow> int" where
  "byBasename F a b = localeCompare F (pathBasename F a) (pathBasename F b)"

text \<open>\<open>resolveFiles(changesetFile)\<close>\<close>

definition resolveFiles :: "fileSystem \<Rightarrow> string \<Rightarrow> string list res" where
  "resolveFiles F changesetFile =
     (if changesetFile = [] \<or> trim changesetFile = [] then Thrown ''changeset_file is required''
      else if isGlobPattern changesetFile then
        (let normalizedPattern = forwardSlashes changesetFile;
             matches = globSync F normalizedPattern
         in if length matches = 0 then
              Thrown (''No files matched the pattern: '' @ changesetFile)
            else Returned (sortWith (byBasename F) (map (pathResolve F) matches)))
      else
        (let filePath = pathResolve F changesetFile
         in if \<not> existsSync F filePath then Thrown (''Changeset file not found: '' @ filePath)
            else Returned [filePath]))"

text \<open>
  A comparator is consistent when the order it induces is total and transitive, as the order
  of \<open>localeCompare\<close> is.
\<close>

definition consistent :: "('a \<Rightarrow> 'a \<Rightarrow> int) \<Rightarrow> bool" where
  "consistent cmp =
     ((\<forall>a b. cmp a b \<le> 0 \<or> cmp b a \<le> 0) \<and>
      (\<forall>a b c. cmp a b \<le> 0 \<longrightarrow> cmp b c \<le> 0 \<longrightarrow> cmp a c \<le> 0))"

text \<open>
  For examples: a consistent comparator, which compares two strings character by character
  by their codes, and a file system.
\<close>

fun compareCodes :: "string \<Rightarrow> string \<Rightarrow> int" where
  "compareCodes [] [] = 0"
| "compareCodes [] (y # ys) = - 1"
| "compareCodes (x # xs) [] = 1"
| "compareCodes (x # xs) (y # ys) =
     (if (of_char x :: nat) < of_char y then - 1
      else if (of_char y :: nat) < of_char x then 1
      else compareCodes xs ys)"

definition globMatches :: "string list \<Rightarrow> string \<Rightarrow> string list" where
  "globMatches fs pattern = fs"

definition allExist :: "string \<Rightarrow> bool" where
  "allExist p = True"

definition underWorkspace :: "string \<Rightarrow> string" where
  "underWorkspace p = ''/w/'' @ p"

definition lastPart :: "string \<Rightarrow> string" where
  "lastPart p = last (split CHR ''/'' p)"

definition exampleFiles :: "string list \<Rightarrow> fileSystem" where
  "exampleFiles fs = \<lparr>globSync = globMatches fs, existsSync = allExist,
     pathResolve = underWorkspace, pathBasename = lastPart, localeCompare = compareCodes\<rparr>"

section \<open>JSON values and the network\<close>

text \<open>
  JSON values as the remote service returns them and as the action passes them through.
  \<open>JNum\<close> carries integers only; an object is its list of members in document order.
\<close>

datatype json = JNull | JBool bool | JNum int | JStr string
  | JArr "json list" | JObj "(string \<times> json) list"

text \<open>JavaScript truthiness of a JSON value, as \<open>||\<close>, \<open>!\<close> and \<open>if\<close> test it.\<close>

fun truthy :: "json \<Rightarrow> bool" where
  "truthy JNull = False"
| "truthy (JBool b) = b"
| "truthy (JNum n) = (n \<noteq> 0)"
| "truthy (JStr s) = (s \<noteq> [])"
| "truthy (JArr xs) = True"
| "truthy (JObj members) = True"

text \<open>
  The property read \<open>v.k\<close> on a value that is not \<open>null\<close>, for the member names the action
  reads (\<open>status\<close>, \<open>result\<close>, \<open>error\<close>, \<open>data\<close>, \<open>attributes\<close>, \<open>task_id\<close>, \<open>is_valid\<close>):
  \<open>None\<close> is \<open>undefined\<close>. A member that occurs twice has its last value, as after
  \<open>JSON.parse\<close>.
\<close>

fun getProp :: "json \<Rightarrow> string \<Rightarrow> json option" where
  "getProp (JObj members) k = map_of (rev members) k"
| "getProp v k = None"

text \<open>\<open>x || {}\<close> for a member that may be missing.\<close>

definition orEmptyObject :: "json option \<Rightarrow> json" where
  "orEmptyObject x = (case x of None \<Rightarrow> JObj [] | Some v \<Rightarrow> if truthy v then v else JObj [])"

text \<open>
  The string a value becomes inside a template literal. A number is printed in decimal, as
  JavaScript prints an integer of magnitude below \<open>10^21\<close>.
\<close>

fun toStr :: "json \<Rightarrow> string" where
  "toStr JNull = ''null''"
| "toStr (JBool b) = (if b then ''true'' else ''false'')"
| "toStr (JNum n) = decimalInt n"
| "toStr (JStr s) = s"
| "toStr (JArr xs) = join '','' (map (\<lambda>x. if x = JNull then [] else toStr x) xs)"
| "toStr (JObj members) = ''[object Object]''"

text \<open>
  A \<open>Response\<close> of \<open>fetch\<close>: \<open>ok\<close>, \<open>status\<close>, \<open>statusText\<close>, the body as \<open>text()\<close> gives
  it and as \<open>json()\<close> gives it (\<open>json()\<close> throws on a body that is not JSON).
\<close>

record response =
  ok :: bool
  httpStatus :: nat
  statusText :: string
  bodyText :: string
  bodyJson :: "json res"

text \<open>A call of \<open>fetch\<close> rejects with an error (a transport-level fault) or resolves.\<close>

datatype reply = Rejected string | Resolved response

text \<open>
  The world outside the action: the reply to each call of \<open>fetch\<close>, numbered in the order
  of the calls, the file system, and the library functions the action calls (\<open>path\<close>,
  \<open>JSON.stringify\<close>, \<open>encodeURIComponent\<close>).
\<close>

record world =
  net :: "nat \<Rightarrow> reply"
  readFileSync :: "string \<Rightarrow> string res"
  basename :: "string \<Rightarrow> string"
  extname :: "string \<Rightarrow> string"
  stringify :: "json \<Rightarrow> string"
  encodeURIComponent :: "string \<Rightarrow> string"

section \<open>TaskPoller\<close>

text \<open>What \<open>pollTask\<close> returns: \<open>{ status: 'SUCCESS', result }\<close>, \<open>{ status: 'FAILURE', error }\<close>,
  \<open>{ status: 'REVOKED' }\<close> or \<open>{ status: 'TIMEOUT' }\<close>.\<close>

datatype task_outcome = SUCCESS json | FAILURE json | REVOKED | TIMEOUT

text \<open>
  What \<open>validateFile\<close> and \<open>executeFile\<close> return: \<open>{ taskId, status, result, error }\<close>,
  where \<open>taskId\<close> and \<open>error\<close> may be missing (\<open>None\<close> is \<open>undefined\<close>).
  An entry of the \<open>results\<close> array of \<open>run\<close> adds the file it belongs to.
\<close>

record op_result =
  taskId :: "string option"
  status :: string
  result :: json
  error :: "string option"

record file_result = op_result +
  file_path :: string

text \<open>
  The trace of a run, kept for stating what was attempted: one event for each completed call
  of \<open>validateFile\<close> and of \<open>executeFile\<close>, with the file and what the call returned or threw.
\<close>

datatype event = Validated string "op_result res" | Executed string "op_result res"

text \<open>
  The state a run threads through: how many calls of \<open>fetch\<close> it has issued, the warnings
  it has logged with \<open>core.warning\<close>, and the trace.
\<close>

record state =
  fetched :: nat
  warnings :: "string list"
  events :: "event list"

definition fetch :: "world \<Rightarrow> state \<Rightarrow> reply \<times> state" where
  "fetch W s = (net W (fetched s), s\<lparr>fetched := Suc (fetched s)\<rparr>)"

definition pollInterval :: int where
  "pollInterval = 5"

text \<open>
  The body of the \<open>try\<close> of one iteration (\<open>pollTask\<close>, lines 19 to 49): it throws, returns an
  outcome, or falls through (\<open>None\<close>) on \<open>PENDING\<close>, \<open>STARTED\<close>, \<open>RETRY\<close> and any other status.
\<close>

definition pollAttempt :: "world \<Rightarrow> state \<Rightarrow> task_outcome option res \<times> state" where
  "pollAttempt W s =
     (case fetch W s of
        (Rejected m, s1) \<Rightarrow> (Thrown m, s1)
      | (Resolved pollResponse, s1) \<Rightarrow>
          if \<not> ok pollResponse then
            (Thrown (''Poll failed with status '' @ decimal (httpStatus pollResponse) @ '': '' @
               (if bodyText pollResponse \<noteq> [] then bodyText pollResponse
                else statusText pollResponse)), s1)
          else
            (case bodyJson pollResponse of
               Thrown m \<Rightarrow> (Thrown m, s1)
             | Returned pollData \<Rightarrow>
                 if pollData = JNull then
                   (Thrown ''Cannot read properties of null (reading 'status')'', s1)
                 else if getProp pollData ''status'' = Some (JStr ''SUCCESS'') then
                   (Returned (Some (SUCCESS (orEmptyObject (getProp pollData ''result'')))), s1)
                 else if getProp pollData ''status'' = Some (JStr ''FAILURE'') then
                   (Returned (Some (FAILURE
                      (case getProp pollData ''error'' of
                         None \<Rightarrow> JStr ''Unknown error''
                       | Some e \<Rightarrow> if truthy e then e else JStr ''Unknown error''))), s1)
                 else if getProp pollData ''status'' = Some (JStr ''REVOKED'') then
                   (Returned (Some REVOKED), s1)
                 else (Returned None, s1)))"

text \<open>\<open>core.warning(`Error during polling: ${e.message}. Retrying...`)\<close>\<close>

definition warn :: "string \<Rightarrow> state \<Rightarrow> state" where
  "warn m s = s\<lparr>warnings := warnings s @ [''Error during polling: '' @ m @ ''. Retrying...'']\<rparr>"

text \<open>
  The \<open>while (elapsed < pollingTimeoutSeconds)\<close> loop: sleep one interval, add it to
  \<open>elapsed\<close>, try one attempt; the \<open>catch\<close> rethrows an error whose message includes
  \<open>Poll failed\<close> and logs any other as a warning before the next iteration.
\<close>

function pollLoop :: "world \<Rightarrow> int \<Rightarrow> int \<Rightarrow> state \<Rightarrow> task_outcome res \<times> state" where
  "pollLoop W pollingTimeoutSeconds elapsed s =
     (if elapsed < pollingTimeoutSeconds then
        (case pollAttempt W s of
           (Thrown m, s1) \<Rightarrow>
             if m \<noteq> [] \<and> includesStr m ''Poll failed'' then (Thrown m, s1)
             else pollLoop W pollingTimeoutSeconds (elapsed + pollInterval) (warn m s1)
         | (Returned (Some outcome), s1) \<Rightarrow> (Returned outcome, s1)
         | (Returned None, s1) \<Rightarrow> pollLoop W pollingTimeoutSeconds (elapsed + pollInterval) s1)
      else (Returned TIMEOUT, s))"
  by pat_completeness auto
termination
  by (relation "measure (\<lambda>(W, pollingTimeoutSeconds, elapsed, s). nat (pollingTimeoutSeconds - elapsed))")
     (auto simp: pollInterval_def)

text \<open>
  \<open>pollTask(baseUrl, apiKey, taskId, label, pollingTimeoutSeconds)\<close>; the first four
  arguments go into the request and the log lines only.
\<close>

definition pollTask ::
  "world \<Rightarrow> string \<Rightarrow> string \<Rightarrow> string \<Rightarrow> string \<Rightarrow> int \<Rightarrow> state \<Rightarrow> task_outcome res \<times> state" where
  "pollTask W base_url api_key task_id label pollingTimeoutSeconds s =
     pollLoop W pollingTimeoutSeconds 0 s"

text \<open>
  For stating the poller's properties: the number of iterations the timeout admits, and the
  replies after which the loop goes on, namely a fault (a rejected \<open>fetch\<close> or a body that
  does not parse) whose message lacks \<open>Poll failed\<close>, and a success response whose JSON
  carries none of the statuses \<open>SUCCESS\<close>, \<open>FAILURE\<close>, \<open>REVOKED\<close>.
\<close>

definition pollBudget :: "int \<Rightarrow> nat" where
  "pollBudget pollingTimeoutSeconds =
     (if pollingTimeoutSeconds \<le> 0 then 0 else nat ((pollingTimeoutSeconds + 4) div 5))"

definition terminalStatus :: "json option \<Rightarrow> bool" where
  "terminalStatus st = (st = Some (JStr ''SUCCESS'') \<or> st = Some (JStr ''FAILURE'')
     \<or> st = Some (JStr ''REVOKED''))"

fun nonTerminal :: "reply \<Rightarrow> bool" where
  "nonTerminal (Rejected m) = (\<not> includesStr m ''Poll failed'')"
| "nonTerminal (Resolved r) =
     (ok r \<and>
      (case bodyJson r of
         Thrown m \<Rightarrow> \<not> includesStr m ''Poll failed''
       | Returned pollData \<Rightarrow> \<not> terminalStatus (getProp pollData ''status'')))"

text \<open>Replies and worlds for examples: a finite script of replies, after which \<open>fetch\<close> rejects.\<close>

definition scripted :: "reply list \<Rightarrow> nat \<Rightarrow> reply" where
  "scripted rs i = (if i < length rs then rs ! i else Rejected ''fetch failed'')"

definition okJson :: "json \<Rightarrow> reply" where
  "okJson body = Resolved \<lparr>ok = True, httpStatus = 200, statusText = ''OK'', bodyText = [],
     bodyJson = Returned body\<rparr>"

definition pendingReply :: reply where
  "pendingReply = okJson (JObj [(''status'', JStr ''PENDING'')])"

definition always :: "reply \<Rightarrow> nat \<Rightarrow> reply" where
  "always r i = r"

definition pollReply :: "string \<Rightarrow> json \<Rightarrow> reply" where
  "pollReply st res = okJson (JObj [(''status'', JStr st), (''result'', res)])"

definition fileContent :: "string \<Rightarrow> string \<Rightarrow> string res" where
  "fileContent content p = Returned content"

definition lastSegment :: "string \<Rightarrow> string" where
  "lastSegment p = last (split CHR ''/'' p)"

definition yamlExt :: "string \<Rightarrow> string" where
  "yamlExt p = ''.yaml''"

definition noStringify :: "json \<Rightarrow> string" where
  "noStringify v = ''{}''"

definition worldOf :: "(nat \<Rightarrow> reply) \<Rightarrow> world" where
  "worldOf replies = \<lparr>net = replies, readFileSync = fileContent ''name: Test Queue'',
     basename = lastSegment, extname = yamlExt, stringify = noStringify,
     encodeURIComponent = id\<rparr>"

definition scriptedWorld :: "reply list \<Rightarrow> world" where
  "scriptedWorld rs = worldOf (scripted rs)"

definition start :: state where
  "start = \<lparr>fetched = 0, warnings = [], events = []\<rparr>"

section \<open>Aggregation of per-file results\<close>

text \<open>\<open>const STATUS_PRIORITY = { FAILURE: 0, TIMEOUT: 1, REVOKED: 2, SUBMITTED: 3, SUCCESS: 4 }\<close>\<close>

definition STATUS_PRIORITY :: "string \<rightharpoonup> nat" where
  "STATUS_PRIORITY = map_of
     [(''FAILURE'', 0), (''TIMEOUT'', 1), (''REVOKED'', 2), (''SUBMITTED'', 3), (''SUCCESS'', 4)]"

text \<open>\<open>STATUS_PRIORITY[s] ?? 99\<close>\<close>

definition priority :: "string \<Rightarrow> nat" where
  "priority s = (case STATUS_PRIORITY s of None \<Rightarrow> 99 | Some p \<Rightarrow> p)"

text \<open>
  \<open>results.reduce((worst, r) => priority(r.status) < priority(worst) ? r.status : worst,
  'SUCCESS')\<close>: a left fold that starts from \<open>'SUCCESS'\<close>.
\<close>

definition worstStep :: "string \<Rightarrow> ('a op_result_scheme) \<Rightarrow> string" where
  "worstStep worst r = (if priority (status r) < priority worst then status r else worst)"

definition worstStatus :: "('a op_result_scheme) list \<Rightarrow> string" where
  "worstStatus results = foldl worstStep ''SUCCESS'' results"

section \<open>ChangesetOperation: validate and execute one file\<close>

text \<open>The \<open>options\<close> object that \<open>run\<close> builds once and passes to every operation.\<close>

record options =
  apiKey :: string
  baseUrl :: string
  environment :: string
  validateBeforeExecute :: bool
  validateOnly :: bool
  pollingTimeoutSeconds :: int
  changesetVariables :: "variables option"

definition buildUrl :: "world \<Rightarrow> string \<Rightarrow> string \<Rightarrow> string \<Rightarrow> string" where
  "buildUrl W base endpoint env =
     base @ endpoint @ (if env \<noteq> [] then ''?environment='' @ encodeURIComponent W env else [])"

definition toLowerCase :: "string \<Rightarrow> string" where
  "toLowerCase s =
     map (\<lambda>c. if 65 \<le> (of_char c :: nat) \<and> (of_char c :: nat) \<le> 90
                then char_of ((of_char c :: nat) + 32) else c) s"

definition getFileFormat :: "world \<Rightarrow> string \<Rightarrow> string" where
  "getFileFormat W filePath =
     (if toLowerCase (extname W filePath) = ''.json'' then ''json'' else ''yaml'')"

text \<open>
  \<open>data.data.attributes.task_id\<close> inside its \<open>try\<close>: the outer \<open>None\<close> is the \<open>TypeError\<close>
  of reading a property of \<open>null\<close> or \<open>undefined\<close>, the inner \<open>None\<close> is \<open>undefined\<close>.
\<close>

definition readTaskId :: "json \<Rightarrow> json option option" where
  "readTaskId d =
     (if d = JNull then None
      else
        (case getProp d ''data'' of
           None \<Rightarrow> None
         | Some a \<Rightarrow>
             if a = JNull then None
             else
               (case getProp a ''attributes'' of
                  None \<Rightarrow> None
                | Some b \<Rightarrow> if b = JNull then None else Some (getProp b ''task_id''))))"

text \<open>
  The lines that \<open>validateFile\<close> (147 to 186) and \<open>executeFile\<close> (244 to 283) share, with the
  texts in which they differ as arguments: post the request, refuse a response that is not
  \<open>ok\<close>, read the task id out of the JSON body and refuse an empty one. A task id that is
  neither falsy nor a string has no \<open>trim\<close>, which is a \<open>TypeError\<close>. The request body
  (\<open>buildYamlPayload\<close> or \<open>JSON.stringify\<close>) has no part in what the world replies and is
  left out.
\<close>

definition submit ::
  "world \<Rightarrow> string \<Rightarrow> string \<Rightarrow> string \<Rightarrow> string \<Rightarrow> string \<Rightarrow> state \<Rightarrow> string res \<times> state" where
  "submit W url requestFailed extractFailed emptyTaskId notAFunction s =
     (case fetch W s of
        (Rejected m, s1) \<Rightarrow>
          (Thrown (''Failed to connect to InProd API at '' @ url @ '': '' @ m), s1)
      | (Resolved r, s1) \<Rightarrow>
          if \<not> ok r then
            (Thrown (requestFailed @ decimal (httpStatus r) @ '': '' @
               (if bodyText r \<noteq> [] then bodyText r else statusText r)), s1)
          else
            (case bodyJson r of
               Thrown m \<Rightarrow> (Thrown m, s1)
             | Returned d \<Rightarrow>
                 (case readTaskId d of
                    None \<Rightarrow> (Thrown (extractFailed @ stringify W d), s1)
                  | Some None \<Rightarrow> (Thrown emptyTaskId, s1)
                  | Some (Some v) \<Rightarrow>
                      if \<not> truthy v then (Thrown emptyTaskId, s1)
                      else
                        (case v of
                           JStr t \<Rightarrow>
                             if trim t = [] then (Thrown emptyTaskId, s1) else (Returned t, s1)
                         | _ \<Rightarrow> (Thrown notAFunction, s1)))))"

text \<open>\<open>validateFile(filePath, options)\<close>\<close>

definition validateFile :: "world \<Rightarrow> options \<Rightarrow> string \<Rightarrow> state \<Rightarrow> op_result res \<times> state" where
  "validateFile W opts filePath s =
     (case readFileSync W filePath of
        Thrown m \<Rightarrow> (Thrown m, s)
      | Returned content \<Rightarrow>
          (let endpoint = (if getFileFormat W filePath = ''json''
                           then ''/api/v1/change-set/change-set/validate_json/''
                           else ''/api/v1/change-set/change-set/validate_yaml/'');
               validateUrl = buildUrl W (baseUrl opts) endpoint (environment opts)
           in case submit W validateUrl ''Validation request failed with status ''
                     ''Failed to extract task_id from validation response. Response: ''
                     ''Validation API returned an empty task_id''
                     ''validateTaskId.trim is not a function'' s of
                (Thrown m, s1) \<Rightarrow> (Thrown m, s1)
              | (Returned validateTaskId, s1) \<Rightarrow>
                  (case pollTask W (baseUrl opts) (apiKey opts) validateTaskId ''Validation''
                          (pollingTimeoutSeconds opts) s1 of
                     (Thrown m, s2) \<Rightarrow> (Thrown m, s2)
                   | (Returned TIMEOUT, s2) \<Rightarrow>
                       (Returned \<lparr>taskId = Some validateTaskId, status = ''TIMEOUT'',
                          result = JObj [],
                          error = Some (''Validation did not complete within '' @
                            decimalInt (pollingTimeoutSeconds opts) @ '' seconds'')\<rparr>, s2)
                   | (Returned (FAILURE e), s2) \<Rightarrow>
                       (Returned \<lparr>taskId = None, status = ''FAILURE'', result = JObj [],
                          error = Some (''Validation failed: '' @ toStr e)\<rparr>, s2)
                   | (Returned REVOKED, s2) \<Rightarrow>
                       (Returned \<lparr>taskId = None, status = ''REVOKED'', result = JObj [],
                          error = Some ''Validation task was cancelled''\<rparr>, s2)
                   | (Returned (SUCCESS res), s2) \<Rightarrow>
                       if \<not> (case getProp res ''is_valid'' of None \<Rightarrow> False | Some b \<Rightarrow> truthy b)
                       then
                         (Returned \<lparr>taskId = None, status = ''FAILURE'', result = res,
                            error = Some ''Changeset validation failed. See validation errors above.''\<rparr>,
                          s2)
                       else
                         (Returned \<lparr>taskId = None, status = ''SUCCESS'', result = res,
                            error = None\<rparr>, s2))))"

text \<open>
  \<open>executeFile(filePath, options)\<close>; on \<open>REVOKED\<close> it logs a warning, whose text starts
  with the sign U+26A0.
\<close>

definition revokedWarning :: string where
  "revokedWarning = [CHR 0xE2, CHR 0x9A, CHR 0xA0] @ '' Task was cancelled/revoked''"

definition executeFile :: "world \<Rightarrow> options \<Rightarrow> string \<Rightarrow> state \<Rightarrow> op_result res \<times> state" where
  "executeFile W opts filePath s =
     (case readFileSync W filePath of
        Thrown m \<Rightarrow> (Thrown m, s)
      | Returned content \<Rightarrow>
          (let endpoint = (if getFileFormat W filePath = ''json''
                           then ''/api/v1/change-set/change-set/execute_json/''
                           else ''/api/v1/change-set/change-set/execute_yaml/'');
               executeUrl = buildUrl W (baseUrl opts) endpoint (environment opts)
           in case submit W executeUrl ''API request failed with status ''
                     ''Failed to extract task_id from API response. Response: ''
                     ''API returned an empty task_id''
                     ''taskId.trim is not a function'' s of
                (Thrown m, s1) \<Rightarrow> (Thrown m, s1)
              | (Returned task, s1) \<Rightarrow>
                  (case pollTask W (baseUrl opts) (apiKey opts) task ''Execution''
                          (pollingTimeoutSeconds opts) s1 of
                     (Thrown m, s2) \<Rightarrow> (Thrown m, s2)
                   | (Returned (SUCCESS res), s2) \<Rightarrow>
                       (Returned \<lparr>taskId = None, status = ''SUCCESS'', result = res,
                          error = None\<rparr>, s2)
                   | (Returned (FAILURE e), s2) \<Rightarrow>
                       (Returned \<lparr>taskId = None, status = ''FAILURE'', result = JObj [],
                          error = Some (''Changeset execution failed: '' @ toStr e)\<rparr>, s2)
                   | (Returned REVOKED, s2) \<Rightarrow>
                       (Returned \<lparr>taskId = None, status = ''REVOKED'', result = JObj [],
                          error = Some ''Changeset execution was cancelled''\<rparr>,
                        s2\<lparr>warnings := warnings s2 @ [revokedWarning]\<rparr>)
                   | (Returned TIMEOUT, s2) \<Rightarrow>
                       (Returned \<lparr>taskId = None, status = ''TIMEOUT'', result = JObj [],
                          error = Some (''Changeset execution did not complete within '' @
                            decimalInt (pollingTimeoutSeconds opts) @ '' seconds'')\<rparr>, s2))))"

text \<open>
  Recording the trace: a call of \<open>validateFile\<close> or \<open>executeFile\<close> made through \<open>traced\<close>
  appends its event when it completes.
\<close>

definition traced ::
  "(op_result res \<Rightarrow> event) \<Rightarrow> (state \<Rightarrow> op_result res \<times> state) \<Rightarrow> state \<Rightarrow> op_result res \<times> state" where
  "traced ev call s = (case call s of (r, s1) \<Rightarrow> (r, s1\<lparr>events := events s1 @ [ev r]\<rparr>))"

text \<open>
  \<open>processSingleFile(filePath, options)\<close>: validate if asked to, stop on a validation that
  is not \<open>SUCCESS\<close> or when only validating, else execute. \<open>if (execResult.error)\<close> tests for
  a non-empty error text.
\<close>

definition executeStep :: "world \<Rightarrow> options \<Rightarrow> string \<Rightarrow> state \<Rightarrow> file_result res \<times> state" where
  "executeStep W opts filePath s =
     (case traced (Executed filePath) (executeFile W opts filePath) s of
        (Thrown m, s1) \<Rightarrow> (Thrown m, s1)
      | (Returned execResult, s1) \<Rightarrow>
          if (case error execResult of None \<Rightarrow> False | Some e \<Rightarrow> e \<noteq> []) then
            (Returned \<lparr>taskId = None, status = status execResult, result = result execResult,
               error = error execResult, file_path = filePath\<rparr>, s1)
          else
            (Returned \<lparr>taskId = None, status = status execResult, result = result execResult,
               error = None, file_path = filePath\<rparr>, s1))"

definition processSingleFile :: "world \<Rightarrow> options \<Rightarrow> string \<Rightarrow> state \<Rightarrow> file_result res \<times> state" where
  "processSingleFile W opts filePath s =
     (if validateOnly opts \<or> validateBeforeExecute opts then
        (case traced (Validated filePath) (validateFile W opts filePath) s of
           (Thrown m, s1) \<Rightarrow> (Thrown m, s1)
         | (Returned valResult, s1) \<Rightarrow>
             if status valResult \<noteq> ''SUCCESS'' then
               (Returned \<lparr>taskId = None, status = status valResult, result = result valResult,
                  error = error valResult, file_path = filePath\<rparr>, s1)
             else if validateOnly opts then
               (Returned \<lparr>taskId = None, status = ''SUCCESS'', result = result valResult,
                  error = None, file_path = filePath\<rparr>, s1)
             else executeStep W opts filePath s1)
      else executeStep W opts filePath s)"

section \<open>Orchestrator\<close>

text \<open>
  Phase 1 of the \<open>validate_first\<close> strategy (\<open>run\<close>, lines 433 to 455): validate every file;
  only a validation that is not \<open>SUCCESS\<close>, or that throws, is pushed onto \<open>results\<close>, and
  with \<open>failFast\<close> it ends the loop.
\<close>

fun validatePhase ::
  "world \<Rightarrow> options \<Rightarrow> bool \<Rightarrow> string list \<Rightarrow> file_result list \<Rightarrow> state
     \<Rightarrow> file_result list \<times> state" where
  "validatePhase W opts failFast [] results s = (results, s)"
| "validatePhase W opts failFast (filePath # rest) results s =
     (case traced (Validated filePath) (validateFile W opts filePath) s of
        (Returned valResult, s1) \<Rightarrow>
          if status valResult \<noteq> ''SUCCESS'' then
            (let results1 = results @
               [\<lparr>taskId = taskId valResult, status = status valResult,
                 result = result valResult, error = error valResult, file_path = filePath\<rparr>]
             in if failFast then (results1, s1)
                else validatePhase W opts failFast rest results1 s1)
          else validatePhase W opts failFast rest results s1
      | (Thrown m, s1) \<Rightarrow>
          (let results1 = results @
             [\<lparr>taskId = None, status = ''FAILURE'', result = JObj [], error = Some m,
               file_path = filePath\<rparr>]
           in if failFast then (results1, s1)
              else validatePhase W opts failFast rest results1 s1))"

text \<open>
  The loop over \<open>processSingleFile\<close>, which \<open>run\<close> has twice with the same body: as phase 2
  of \<open>validate_first\<close> (lines 479 to 497) and as the \<open>per_file\<close> strategy (lines 500 to 518).
\<close>

fun processLoop ::
  "world \<Rightarrow> options \<Rightarrow> bool \<Rightarrow> string list \<Rightarrow> file_result list \<Rightarrow> state
     \<Rightarrow> file_result list \<times> state" where
  "processLoop W opts failFast [] results s = (results, s)"
| "processLoop W opts failFast (filePath # rest) results s =
     (case processSingleFile W opts filePath s of
        (Returned fileResult, s1) \<Rightarrow>
          (let results1 = results @ [fileResult]
           in if (case error fileResult of None \<Rightarrow> False | Some e \<Rightarrow> e \<noteq> []) \<and> failFast
              then (results1, s1)
              else processLoop W opts failFast rest results1 s1)
      | (Thrown m, s1) \<Rightarrow>
          (let results1 = results @
             [\<lparr>taskId = None, status = ''FAILURE'', result = JObj [], error = Some m,
               file_path = filePath\<rparr>]
           in if failFast then (results1, s1)
              else processLoop W opts failFast rest results1 s1))"

text \<open>
  What a run hands to the hosting platform: the outputs \<open>status\<close> and \<open>result\<close> (the array
  before \<open>JSON.stringify\<close>; its entries have no \<open>taskId\<close> and carry the file's base name),
  and the message of the error it ends with, if any; \<open>run\<close> passes that message to
  \<open>core.setFailed\<close> and exits with code 1.
\<close>

record outputs =
  statusOutput :: string
  resultOutput :: "file_result list"
  thrownError :: "string option"

text \<open>\<open>{ file: path.basename(r.file), status: r.status, result: r.result || {}, error: r.error || null }\<close>\<close>

definition toReport :: "world \<Rightarrow> file_result \<Rightarrow> file_result" where
  "toReport W r =
     \<lparr>taskId = None, status = status r,
      result = (if truthy (result r) then result r else JObj []),
      error = (case error r of None \<Rightarrow> None | Some e \<Rightarrow> if e \<noteq> [] then Some e else None),
      file_path = basename W (file_path r)\<rparr>"

text \<open>The message of \<open>new Error(r.error)\<close>: empty when \<open>r.error\<close> is \<open>undefined\<close>.\<close>

definition errorMessage :: "string option \<Rightarrow> string" where
  "errorMessage e = (case e of None \<Rightarrow> [] | Some m \<Rightarrow> m)"

text \<open>The two count summaries that a run can end with (lines 540 and 471).\<close>

definition failedSummary :: "nat \<Rightarrow> nat \<Rightarrow> string" where
  "failedSummary k n =
     decimal k @ '' of '' @ decimal n @ '' changeset(s) failed. See result output for details.''"

definition failedValidationSummary :: "nat \<Rightarrow> nat \<Rightarrow> string" where
  "failedValidationSummary k n =
     decimal k @ '' of '' @ decimal n @
     '' changeset(s) failed validation. See result output for details.''"


text \<open>Lines 521 to 542: the aggregate outputs and the final error.\<close>

definition finish :: "world \<Rightarrow> file_result list \<Rightarrow> outputs" where
  "finish W results =
     (let aggregateStatus = worstStatus results in
      \<lparr>statusOutput = aggregateStatus,
       resultOutput = map (toReport W) results,
       thrownError =
         (if aggregateStatus = ''FAILURE'' \<or> aggregateStatus = ''TIMEOUT'' \<or> aggregateStatus = ''REVOKED''
          then
            (let failedFiles = filter (\<lambda>r. status r \<noteq> ''SUCCESS'' \<and> status r \<noteq> ''SUBMITTED'') results
             in Some (if length failedFiles = 1 then errorMessage (error (hd failedFiles))
                      else failedSummary (length failedFiles) (length results)))
          else None)\<rparr>)"

text \<open>
  The part of \<open>run\<close> from \<open>const results = []\<close> on (lines 429 to 542), given the resolved
  files, the options, the strategy and the fail-fast flag.
\<close>

definition orchestrate ::
  "world \<Rightarrow> options \<Rightarrow> string \<Rightarrow> bool \<Rightarrow> string list \<Rightarrow> state \<Rightarrow> outputs \<times> state" where
  "orchestrate W opts executionStrategy failFast filePaths s =
     (if executionStrategy = ''validate_first'' \<and> \<not> validateOnly opts \<and> validateBeforeExecute opts
      then
        (case validatePhase W opts failFast filePaths [] s of
           (results, s1) \<Rightarrow>
             (let validationFailures = filter (\<lambda>r. status r \<noteq> ''SUCCESS'') results in
              if length validationFailures > 0 then
                (\<lparr>statusOutput = ''FAILURE'',
                  resultOutput = map (toReport W) results,
                  thrownError = Some
                    (if length validationFailures = 1 then errorMessage (error (hd validationFailures))
                     else failedValidationSummary (length validationFailures) (length filePaths))\<rparr>,
                 s1)
              else
                (let executeOptions = opts\<lparr>validateBeforeExecute := False, validateOnly := False\<rparr>
                 in case processLoop W executeOptions failFast filePaths results s1 of
                      (results2, s2) \<Rightarrow> (finish W results2, s2))))
      else
        (case processLoop W opts failFast filePaths [] s of
           (results, s1) \<Rightarrow> (finish W results, s1)))"


text \<open>
  For stating what a run attempted: the events a run adds to the trace, whether an event is a
  validation or an execution, its file, whether the operation failed (it threw or returned a
  status other than \<open>SUCCESS\<close>), whether it is a validation that failed, and the entry that
  the loops of \<open>run\<close> push onto \<open>results\<close> for the outcome of an operation (phase 1 keeps the
  task id, which the reported output drops).
\<close>

definition newEvents :: "state \<Rightarrow> state \<Rightarrow> event list" where
  "newEvents s s' = drop (length (events s)) (events s')"

fun isValidated :: "event \<Rightarrow> bool" where
  "isValidated (Validated f r) = True"
| "isValidated (Executed f r) = False"

fun isExecuted :: "event \<Rightarrow> bool" where
  "isExecuted (Validated f r) = False"
| "isExecuted (Executed f r) = True"

fun eventFile :: "event \<Rightarrow> string" where
  "eventFile (Validated f r) = f"
| "eventFile (Executed f r) = f"

fun failedEvent :: "event \<Rightarrow> bool" where
  "failedEvent (Validated f (Thrown m)) = True"
| "failedEvent (Validated f (Returned v)) = (status v \<noteq> ''SUCCESS'')"
| "failedEvent (Executed f (Thrown m)) = True"
| "failedEvent (Executed f (Returned e)) = (status e \<noteq> ''SUCCESS'')"

fun failedValidation :: "event \<Rightarrow> bool" where
  "failedValidation (Validated f (Thrown m)) = True"
| "failedValidation (Validated f (Returned v)) = (status v \<noteq> ''SUCCESS'')"
| "failedValidation (Executed f r) = False"

fun entryOf :: "event \<Rightarrow> file_result" where
  "entryOf (Validated f (Returned v)) =
     \<lparr>taskId = taskId v, status = status v, result = result v, error = error v, file_path = f\<rparr>"
| "entryOf (Validated f (Thrown m)) =
     \<lparr>taskId = None, status = ''FAILURE'', result = JObj [], error = Some m, file_path = f\<rparr>"
| "entryOf (Executed f (Returned e)) =
     \<lparr>taskId = None, status = status e, result = result e, error = error e, file_path = f\<rparr>"
| "entryOf (Executed f (Thrown m)) =
     \<lparr>taskId = None, status = ''FAILURE'', result = JObj [], error = Some m, file_path = f\<rparr>"

text \<open>
  What the loop over \<open>processSingleFile\<close> pushes onto \<open>results\<close> for one file: the result
  returned, or the \<open>FAILURE\<close> entry of the \<open>catch\<close>.
\<close>

definition pushed :: "string \<Rightarrow> file_result res \<Rightarrow> file_result" where
  "pushed filePath x =
     (case x of
        Returned fileResult \<Rightarrow> fileResult
      | Thrown m \<Rightarrow> \<lparr>taskId = None, status = ''FAILURE'', result = JObj [], error = Some m,
          file_path = filePath\<rparr>)"

text \<open>The guard under which \<open>run\<close> takes the two-phase \<open>validate_first\<close> flow (line 431).\<close>

definition twoPhase :: "string \<Rightarrow> options \<Rightarrow> bool" where
  "twoPhase executionStrategy opts =
     (executionStrategy = ''validate_first'' \<and> \<not> validateOnly opts \<and> validateBeforeExecute opts)"

text \<open>The statuses that \<open>validateFile\<close> and \<open>executeFile\<close> return.\<close>

definition knownStatus :: "string \<Rightarrow> bool" where
  "knownStatus st = (st = ''SUCCESS'' \<or> st = ''FAILURE'' \<or> st = ''TIMEOUT'' \<or> st = ''REVOKED'')"

section \<open>The entry point\<close>

text \<open>
  What \<open>run\<close> reads from the hosting platform and the runtime: \<open>core.getInput(name)\<close>, the
  same with \<open>{ required: true }\<close> (which may throw), \<open>process.env\<close> (\<open>None\<close> is \<open>undefined\<close>),
  \<open>parseInt(s, 10)\<close> (\<open>None\<close> is \<open>NaN\<close>) and whether \<open>new URL(s)\<close> accepts \<open>s\<close>.
\<close>

record platform =
  getInput :: "string \<Rightarrow> string"
  getRequiredInput :: "string \<Rightarrow> string res"
  processEnv :: "string \<Rightarrow> string option"
  parseInt :: "string \<Rightarrow> int option"
  validUrl :: "string \<Rightarrow> bool"

text \<open>\<open>a || b || ''\<close> for a string \<open>a\<close> and an environment variable \<open>b\<close>\<close>

definition orElse :: "string \<Rightarrow> string option \<Rightarrow> string" where
  "orElse a b = (if a \<noteq> [] then a else (case b of None \<Rightarrow> [] | Some v \<Rightarrow> v))"

text \<open>\<open>s.replace(/\/$/, '')\<close>\<close>

definition dropTrailingSlash :: "string \<Rightarrow> string" where
  "dropTrailingSlash s = (if s \<noteq> [] \<and> last s = CHR ''/'' then butlast s else s)"

text \<open>
  The part of \<open>run\<close> before \<open>const results = []\<close> (lines 359 to 414): it reads the inputs,
  parses the variables, checks \<open>api_key\<close> and \<open>base_url\<close> and resolves the files; it throws,
  or yields the options, the strategy, the fail-fast flag and the resolved files.
\<close>

definition preflight ::
  "platform \<Rightarrow> fileSystem \<Rightarrow> (options \<times> string \<times> bool \<times> string list) res" where
  "preflight P F =
     (let api_key = orElse (getInput P ''api_key'') (processEnv P ''INPROD_API_KEY'');
          base_url = dropTrailingSlash
            (orElse (getInput P ''base_url'') (processEnv P ''INPROD_BASE_URL''))
      in case getRequiredInput P ''changeset_file'' of
           Thrown m \<Rightarrow> Thrown m
         | Returned changesetFile \<Rightarrow>
             (let pollingTimeoutMinutes =
                    (case parseInt P (getInput P ''polling_timeout_minutes'') of
                       None \<Rightarrow> 10
                     | Some n \<Rightarrow> if n = 0 then 10 else n);
                  executionStrategy =
                    (if getInput P ''execution_strategy'' \<noteq> [] then getInput P ''execution_strategy''
                     else ''per_file'');
                  failFast = (getInput P ''fail_fast'' = ''true'')
              in case parseVariables (getInput P ''changeset_variables'') of
                   Thrown m \<Rightarrow> Thrown m
                 | Returned vars \<Rightarrow>
                     if api_key = [] \<or> trim api_key = [] then
                       Thrown ''api_key is required and cannot be empty''
                     else if base_url = [] \<or> trim base_url = [] then
                       Thrown ''base_url is required and cannot be empty''
                     else if \<not> validUrl P base_url then
                       Thrown (''Invalid base_url format: '' @ base_url)
                     else
                       (case resolveFiles F changesetFile of
                          Thrown m \<Rightarrow> Thrown m
                        | Returned filePaths \<Rightarrow>
                            Returned
                              (\<lparr>apiKey = api_key, baseUrl = base_url,
                                environment = getInput P ''environment'',
                                validateBeforeExecute =
                                  (getInput P ''validate_before_execute'' \<noteq> ''false''),
                                validateOnly = (getInput P ''validate_only'' = ''true''),
                                pollingTimeoutSeconds = pollingTimeoutMinutes * 60,
                                changesetVariables = vars\<rparr>,
                               executionStrategy, failFast, filePaths))))"

text \<open>
  What the hosting platform sees of a run: the outputs \<open>status\<close> and \<open>result\<close>, if the run got
  to set them, and the message given to \<open>core.setFailed\<close>, if the run ended with an error.
\<close>

record report =
  statusSet :: "string option"
  resultSet :: "file_result list option"
  setFailed :: "string option"

text \<open>
  \<open>run()\<close>: an error thrown before the files are processed reaches the \<open>catch\<close> with no
  output set; the error that ends the processing reaches it after both outputs are set.
\<close>

definition run :: "platform \<Rightarrow> fileSystem \<Rightarrow> world \<Rightarrow> state \<Rightarrow> report \<times> state" where
  "run P F W s =
     (case preflight P F of
        Thrown m \<Rightarrow> (\<lparr>statusSet = None, resultSet = None, setFailed = Some m\<rparr>, s)
      | Returned (opts, executionStrategy, failFast, filePaths) \<Rightarrow>
          (case orchestrate W opts executionStrategy failFast filePaths s of
             (out, s1) \<Rightarrow>
               (\<lparr>statusSet = Some (statusOutput out), resultSet = Some (resultOutput out),
                 setFailed = thrownError out\<rparr>, s1)))"

section \<open>Example replies and options\<close>

text \<open>The reply to a submission, carrying the task id at \<open>data.attributes.task_id\<close>.\<close>

definition taskReply :: "string \<Rightarrow> reply" where
  "taskReply t = okJson (JObj [(''data'', JObj [(''attributes'', JObj [(''task_id'', JStr t)])])])"

definition validReply :: reply where
  "validReply = pollReply ''SUCCESS'' (JObj [(''is_valid'', JBool True)])"

definition invalidReply :: reply where
  "invalidReply = pollReply ''SUCCESS'' (JObj [(''is_valid'', JBool False)])"

definition executedReply :: reply where
  "executedReply = pollReply ''SUCCESS'' (JObj [(''run_id'', JNum 42)])"

definition exampleOptions :: options where
  "exampleOptions = \<lparr>apiKey = ''key'', baseUrl = ''https://test.inprod.io'', environment = [],
     validateBeforeExecute = True, validateOnly = False, pollingTimeoutSeconds = 600,
     changesetVariables = None\<rparr>"


text \<open>
  A reply with a given terminal status and no result, a world whose replies go on with one
  reply after a script, and a platform that supplies the listed inputs, no environment
  variables, no number and accepts every URL.
\<close>

definition statusReply :: "string \<Rightarrow> reply" where
  "statusReply st = okJson (JObj [(''status'', JStr st)])"

definition scriptedThen :: "reply list \<Rightarrow> reply \<Rightarrow> nat \<Rightarrow> reply" where
  "scriptedThen rs r i = (if i < length rs then rs ! i else r)"

definition inputOf :: "(string \<times> string) list \<Rightarrow> string \<Rightarrow> string" where
  "inputOf kvs key = (case map_of kvs key of None \<Rightarrow> [] | Some v \<Rightarrow> v)"

definition requiredInputOf :: "(string \<times> string) list \<Rightarrow> string \<Rightarrow> string res" where
  "requiredInputOf kvs key =
     (case map_of kvs key of
        None \<Rightarrow> Thrown (''Input required and not supplied: '' @ key)
      | Some v \<Rightarrow> Returned v)"

definition noEnv :: "string \<Rightarrow> string option" where
  "noEnv key = None"

definition notANumber :: "string \<Rightarrow> int option" where
  "notANumber t = None"

definition anyUrl :: "string \<Rightarrow> bool" where
  "anyUrl u = True"

definition examplePlatform :: "(string \<times> string) list \<Rightarrow> platform" where
  "examplePlatform kvs = \<lparr>getInput = inputOf kvs, getRequiredInput = requiredInputOf kvs,
     processEnv = noEnv, parseInt = notANumber, validUrl = anyUrl\<rparr>"

definition failedReply :: "string \<Rightarrow> reply" where
  "failedReply e = okJson (JObj [(''status'', JStr ''FAILURE''), (''error'', JStr e)])"

section \<open>Properties of the variable parser\<close>

declare decimal.simps [simp del]

declare stripStart.simps [simp del]

lemma stripStart_Nil: "stripStart ws [] = []"
proof -
  have "find (\<lambda>w. w \<noteq> [] \<and> startsWith [] w) ws = None"
    by (auto simp: find_None_iff startsWith_def)
  then show ?thesis by (subst stripStart.simps) simp
qed

lemma stripStart_Cons:
  "stripStart ws (c # cs) =
     (case find (\<lambda>w. w \<noteq> [] \<and> startsWith (c # cs) w) ws of
        None \<Rightarrow> c # cs
      | Some w \<Rightarrow> stripStart ws (drop (length w) (c # cs)))"
  by (rule stripStart.simps)

text \<open>The equations that evaluate \<open>trim\<close> on a given string.\<close>

lemmas trim_defs = trim_def trimEnd_def trimStart_def stripStart_Nil stripStart_Cons
  whiteSpace_def startsWith_def

lemma trim_Nil: "trim [] = []"
  by (simp add: trim_def trimEnd_def trimStart_def stripStart_Nil)

text \<open>Stripping removes whole occurrences of the given strings only.\<close>

lemma stripStart_keeps:
  assumes "c \<in> set s" "\<forall>w\<in>set ws. c \<notin> set w"
  shows "c \<in> set (stripStart ws s)"
  using assms
proof (induction ws s rule: stripStart.induct)
  case (1 ws s)
  show ?case
  proof (cases "find (\<lambda>w. w \<noteq> [] \<and> startsWith s w) ws")
    case None
    with "1.prems"(1) show ?thesis by (subst stripStart.simps) simp
  next
    case (Some w)
    then have w: "w \<in> set ws" "take (length w) s = w"
      by (auto simp: find_Some_iff startsWith_def)
    have "set s = set (take (length w) s) \<union> set (drop (length w) s)"
      using set_append[of "take (length w) s" "drop (length w) s"] by simp
    with "1.prems" w have "c \<in> set (drop (length w) s)" by auto
    from "1.IH"[OF Some this "1.prems"(2)] Some show ?thesis
      by (subst stripStart.simps) simp
  qed
qed

lemma trim_keeps:
  assumes "c \<in> set s" "\<forall>w\<in>set whiteSpace. c \<notin> set w"
  shows "c \<in> set (trim s)"
proof -
  from assms have "c \<in> set (rev (stripStart whiteSpace s))"
    by (simp add: stripStart_keeps)
  moreover from assms(2) have "\<forall>w\<in>set (map rev whiteSpace). c \<notin> set w" by simp
  ultimately have "c \<in> set (stripStart (map rev whiteSpace) (rev (stripStart whiteSpace s)))"
    by (rule stripStart_keeps)
  then show ?thesis by (simp add: trim_def trimEnd_def trimStart_def)
qed

lemma split_not_Nil: "split sep s \<noteq> []"
  by (induction s) (simp_all add: Let_def)

lemma hd_split: "hd (split sep s) = takeWhile (\<lambda>c. c \<noteq> sep) s"
  by (induction s) (simp_all add: Let_def)

lemma tl_split_Nil: "(tl (split sep s) = []) = (sep \<notin> set s)"
  by (induction s) (simp_all add: Let_def split_not_Nil)

lemma join_split: "join [sep] (split sep s) = s"
proof (induction s)
  case Nil
  show ?case by simp
next
  case (Cons c cs)
  obtain p ps where ps: "split sep cs = p # ps"
    using split_not_Nil[of sep cs] by (cases "split sep cs") auto
  show ?case
  proof (cases "c = sep")
    case True
    with Cons ps show ?thesis by simp
  next
    case False
    with Cons ps show ?thesis by (cases ps) simp_all
  qed
qed

lemma join_tl_split:
  assumes "sep \<in> set s"
  shows "join [sep] (tl (split sep s)) = drop 1 (dropWhile (\<lambda>c. c \<noteq> sep) s)"
  using assms
proof (induction s)
  case Nil
  then show ?case by simp
next
  case (Cons c cs)
  show ?case
  proof (cases "c = sep")
    case True
    then show ?thesis by (simp add: join_split)
  next
    case False
    with Cons.prems have "sep \<in> set cs" by simp
    from Cons.IH[OF this] False show ?thesis by (simp add: Let_def)
  qed
qed

lemma startsWith_hash: "startsWith t ''#'' = (t \<noteq> [] \<and> hd t = CHR ''#'')"
  by (cases t) (simp_all add: startsWith_def)

lemma takeWhile_Nil_hd: "t \<noteq> [] \<Longrightarrow> (takeWhile (\<lambda>c. c \<noteq> x) t = []) = (hd t = x)"
  by (cases t) simp_all

lemma parseLine_skip:
  assumes "\<not> (trim line \<noteq> [] \<and> hd (trim line) \<noteq> CHR ''#'')"
  shows "parseLine vars line = Returned vars"
  using assms by (auto simp: parseLine_def startsWith_hash)

lemma parseLine_effective:
  assumes "trim line \<noteq> []" "hd (trim line) \<noteq> CHR ''#''"
  shows "parseLine vars line =
    (if noEqualsOrNoKey (trim line) then Thrown (invalidFormat (trim line))
     else Returned (assign vars (keyOf (trim line)) (valueOf (trim line))))"
proof (cases "noEqualsOrNoKey (trim line)")
  case True
  then have "hd (split CHR ''='' (trim line)) = [] \<or> tl (split CHR ''='' (trim line)) = []"
    using assms(1) by (auto simp: noEqualsOrNoKey_def hd_split tl_split_Nil takeWhile_Nil_hd)
  with assms True show ?thesis
    by (simp add: parseLine_def startsWith_hash Let_def)
next
  case False
  then have eq: "CHR ''='' \<in> set (trim line)" and nk: "hd (trim line) \<noteq> CHR ''=''"
    by (auto simp: noEqualsOrNoKey_def)
  have k: "hd (split CHR ''='' (trim line)) \<noteq> []"
    using nk assms(1) by (simp add: hd_split takeWhile_Nil_hd)
  have v: "tl (split CHR ''='' (trim line)) \<noteq> []"
    using eq by (simp add: tl_split_Nil)
  have j: "join ''='' (tl (split CHR ''='' (trim line)))
      = drop 1 (dropWhile (\<lambda>c. c \<noteq> CHR ''='') (trim line))"
    by (rule join_tl_split[OF eq])
  show ?thesis
    using assms False k v
    by (simp add: parseLine_def startsWith_hash Let_def keyOf_def valueOf_def hd_split j)
qed

lemma parseLines_effective:
  "parseLines vars ls =
     (case find noEqualsOrNoKey (filter (\<lambda>t. t \<noteq> [] \<and> hd t \<noteq> CHR ''#'') (map trim ls)) of
        Some t \<Rightarrow> Thrown (invalidFormat t)
      | None \<Rightarrow> Returned (foldl (\<lambda>vars t. assign vars (keyOf t) (valueOf t)) vars
          (filter (\<lambda>t. t \<noteq> [] \<and> hd t \<noteq> CHR ''#'') (map trim ls))))"
proof (induction ls arbitrary: vars)
  case Nil
  show ?case by simp
next
  case (Cons l ls)
  show ?case
  proof (cases "trim l \<noteq> [] \<and> hd (trim l) \<noteq> CHR ''#''")
    case False
    then have pl: "parseLine vars l = Returned vars" by (rule parseLine_skip)
    have flt: "filter (\<lambda>t. t \<noteq> [] \<and> hd t \<noteq> CHR ''#'') (map trim (l # ls))
        = filter (\<lambda>t. t \<noteq> [] \<and> hd t \<noteq> CHR ''#'') (map trim ls)"
      using False by simp
    show ?thesis unfolding flt using pl Cons.IH[of vars] by simp
  next
    case True
    then have pl: "parseLine vars l =
      (if noEqualsOrNoKey (trim l) then Thrown (invalidFormat (trim l))
       else Returned (assign vars (keyOf (trim l)) (valueOf (trim l))))"
      by (intro parseLine_effective) simp_all
    have flt: "filter (\<lambda>t. t \<noteq> [] \<and> hd t \<noteq> CHR ''#'') (map trim (l # ls))
        = trim l # filter (\<lambda>t. t \<noteq> [] \<and> hd t \<noteq> CHR ''#'') (map trim ls)"
      using True by simp
    show ?thesis
    proof (cases "noEqualsOrNoKey (trim l)")
      case bad: True
      with pl show ?thesis unfolding flt by simp
    next
      case ok: False
      with pl Cons.IH[of "assign vars (keyOf (trim l)) (valueOf (trim l))"]
      show ?thesis unfolding flt by (simp split: option.split)
    qed
  qed
qed

text \<open>
  \<open>obj[key] = value\<close> is a map update for every key but \<open>__proto__\<close>, for which the object
  stays as it is.
\<close>

lemma foldl_assign_update:
  assumes "\<forall>t\<in>set ts. keyOf t \<noteq> ''__proto__''"
  shows "foldl (\<lambda>vars t. assign vars (keyOf t) (valueOf t)) vars ts
       = foldl (\<lambda>vars t. vars(keyOf t \<mapsto> valueOf t)) vars ts"
  using assms by (induction ts arbitrary: vars) (simp_all add: assign_def)

lemma parseVariables_proto_dropped: "parseVariables ''__proto__=x'' = Returned (Some Map.empty)"
  by (simp add: parseVariables_def parseLine_def assign_def trim_defs Let_def)

text \<open>
  Claim C3, as amended. For every raw \<open>changeset_variables\<close> input in which no line has the
  key \<open>__proto__\<close>, parsing yields no variable set when the input is empty or
  whitespace-only; otherwise it splits the trimmed input on newlines, trims each line,
  ignores blank lines and lines starting with \<open>#\<close>, fails with an error naming the first line
  that contains no \<open>=\<close> or that starts with \<open>=\<close> (an empty key), and else maps, line by line,
  the trimmed text left of the first \<open>=\<close> to the trimmed text right of it (further \<open>=\<close>
  included).
\<close>

theorem parseVariables_refines_spec:
  assumes "\<forall>t\<in>set (effectiveLines raw). keyOf t \<noteq> ''__proto__''"
  shows "parseVariables raw = variablesSpec noEqualsOrNoKey raw"
proof (cases "trim raw = []")
  case True
  then show ?thesis by (simp add: parseVariables_def variablesSpec_def)
next
  case False
  then have ne: "raw \<noteq> []" using trim_Nil by auto
  let ?ts = "filter (\<lambda>t. t \<noteq> [] \<and> hd t \<noteq> CHR ''#'') (map trim (split CHR 0x0A (trim raw)))"
  have upd: "foldl (\<lambda>vars t. assign vars (keyOf t) (valueOf t)) Map.empty ?ts
      = foldl (\<lambda>vars t. vars(keyOf t \<mapsto> valueOf t)) Map.empty ?ts"
    using assms unfolding effectiveLines_def by (rule foldl_assign_update)
  from False ne show ?thesis
    unfolding parseVariables_def variablesSpec_def effectiveLines_def
    by (simp add: parseLines_effective[of Map.empty] upd split: option.split)
qed

theorem parseVariables_refines_spec_witness:
  "parseVariables ('' API_KEY = secret '' @ [CHR 0x0A] @ ''# comment'' @ [CHR 0x0A] @ [CHR 0x0A]
       @ ''CONN=user=admin;host=db'')
   = Returned (Some [''API_KEY'' \<mapsto> ''secret'', ''CONN'' \<mapsto> ''user=admin;host=db''])"
proof -
  let ?raw = "'' API_KEY = secret '' @ [CHR 0x0A] @ ''# comment'' @ [CHR 0x0A] @ [CHR 0x0A]
       @ ''CONN=user=admin;host=db''"
  have lines: "effectiveLines ?raw = [''API_KEY = secret'', ''CONN=user=admin;host=db'']"
    by (simp add: effectiveLines_def trim_defs Let_def)
  have keys: "keyOf ''API_KEY = secret'' = ''API_KEY''" "keyOf ''CONN=user=admin;host=db'' = ''CONN''"
    by (simp_all add: keyOf_def trim_defs)
  have vals: "valueOf ''API_KEY = secret'' = ''secret''"
    "valueOf ''CONN=user=admin;host=db'' = ''user=admin;host=db''"
    by (simp_all add: valueOf_def trim_defs)
  have nonblank: "trim ?raw \<noteq> []"
    by (simp add: trim_defs)
  have h: "\<forall>t\<in>set (effectiveLines ?raw). keyOf t \<noteq> ''__proto__''"
    unfolding lines by (simp add: keys)
  from parseVariables_refines_spec[OF h] show ?thesis
    unfolding variablesSpec_def lines using nonblank
    by (simp add: noEqualsOrNoKey_def keys vals)
qed

text \<open>
  The claim as written rejects only lines without \<open>=\<close>; on the line \<open>=v\<close> it would store
  the value \<open>v\<close> under the empty key, while the source throws.
\<close>

theorem parseVariables_empty_key_counterexample:
  "parseVariables ''=v'' = Thrown (invalidFormat ''=v'') \<and>
   variablesSpec noEquals ''=v'' = Returned (Some [[] \<mapsto> ''v'']) \<and>
   parseVariables ''=v'' \<noteq> variablesSpec noEquals ''=v''"
proof -
  have t: "trim ''=v'' = ''=v''" "trim ''v'' = ''v''"
    by (simp_all add: trim_defs)
  have code: "parseVariables ''=v'' = Thrown (invalidFormat ''=v'')"
    by (simp add: parseVariables_def parseLine_def t startsWith_def Let_def)
  have lines: "effectiveLines ''=v'' = [''=v'']"
    by (simp add: effectiveLines_def t)
  have kv: "keyOf ''=v'' = []" "valueOf ''=v'' = ''v''"
    by (simp_all add: keyOf_def valueOf_def t trim_Nil)
  have spec: "variablesSpec noEquals ''=v'' = Returned (Some [[] \<mapsto> ''v''])"
    unfolding variablesSpec_def lines by (simp add: t noEquals_def kv)
  show ?thesis unfolding code spec by simp
qed

section \<open>Properties of the injector\<close>

lemma injectOne_other_name:
  assumes "fst nv \<noteq> n"
  shows "filter (\<lambda>e. name e = n) (injectOne entries nv) = filter (\<lambda>e. name e = n) entries"
proof -
  have "filter (\<lambda>e. name e = n) (filter (\<lambda>e. name e \<noteq> fst nv) entries)
      = filter (\<lambda>e. name e = n) entries"
    using assms by (induction entries) auto
  with assms show ?thesis by (simp add: injectOne_def Let_def)
qed

lemma injectOne_same_name:
  "filter (\<lambda>e. name e = fst nv) (injectOne entries nv) =
     [\<lparr>name = fst nv, entry_value = snd nv,
       maskValue = list_ex maskValue (filter (\<lambda>e. name e = fst nv) entries),
       entry_environment = None\<rparr>]"
proof -
  have "filter (\<lambda>e. name e = fst nv) (filter (\<lambda>e. name e \<noteq> fst nv) entries) = []"
    by (induction entries) auto
  then show ?thesis by (simp add: injectOne_def Let_def)
qed

lemma foldl_injectOne_other_names:
  assumes "n \<notin> fst ` set vars"
  shows "filter (\<lambda>e. name e = n) (foldl injectOne entries vars) = filter (\<lambda>e. name e = n) entries"
  using assms
proof (induction vars arbitrary: entries)
  case Nil
  show ?case by simp
next
  case (Cons nv vars)
  then have "fst nv \<noteq> n" and "n \<notin> fst ` set vars" by auto
  then show ?case using Cons.IH[of "injectOne entries nv"] injectOne_other_name[of nv n entries]
    by simp
qed

lemma foldl_injectOne_named:
  assumes "n \<in> fst ` set vars"
  shows "\<exists>v. filter (\<lambda>e. name e = n) (foldl injectOne entries vars) =
     [\<lparr>name = n, entry_value = v,
       maskValue = list_ex maskValue (filter (\<lambda>e. name e = n) entries),
       entry_environment = None\<rparr>]"
  using assms
proof (induction vars arbitrary: entries)
  case Nil
  then show ?case by simp
next
  case (Cons nv vars)
  show ?case
  proof (cases "fst nv = n")
    case hit: True
    have one: "filter (\<lambda>e. name e = n) (injectOne entries nv) =
       [\<lparr>name = n, entry_value = snd nv,
         maskValue = list_ex maskValue (filter (\<lambda>e. name e = n) entries),
         entry_environment = None\<rparr>]"
      using injectOne_same_name[of nv entries] hit by simp
    show ?thesis
    proof (cases "n \<in> fst ` set vars")
      case True
      from Cons.IH[OF True, of "injectOne entries nv"] one show ?thesis by simp
    next
      case False
      from foldl_injectOne_other_names[OF False, of "injectOne entries nv"] one
      show ?thesis by simp
    qed
  next
    case miss: False
    with Cons.prems have later: "n \<in> fst ` set vars" by auto
    from Cons.IH[OF later, of "injectOne entries nv"] injectOne_other_name[OF miss, of entries]
    show ?thesis by simp
  qed
qed

lemma list_ex_filter_named:
  "list_ex maskValue (filter (\<lambda>e. name e = n) entries)
     = (\<exists>e\<in>set entries. name e = n \<and> maskValue e)"
  by (auto simp: list_ex_iff)

text \<open>
  Claim C1. For every changeset document and every variable name present in the supplied
  VariableSet, after injection the document's variable collection holds exactly one entry with
  that name; its environment is null and its \<open>maskValue\<close> is true exactly when some entry with
  that name had \<open>maskValue\<close> true before the injection.
\<close>

theorem inject_one_global_entry_mask_preserved:
  assumes "n \<in> fst ` set variables"
  shows "\<exists>e. filter (\<lambda>e. name e = n) (variableCollection (inject doc fmt variables)) = [e]
     \<and> entry_environment e = None
     \<and> maskValue e = (\<exists>e0\<in>set (variableCollection doc). name e0 = n \<and> maskValue e0)"
proof -
  from foldl_injectOne_named[OF assms, of "variableCollection doc"]
  obtain v where "filter (\<lambda>e. name e = n) (foldl injectOne (variableCollection doc) variables) =
     [\<lparr>name = n, entry_value = v,
       maskValue = list_ex maskValue (filter (\<lambda>e. name e = n) (variableCollection doc)),
       entry_environment = None\<rparr>]" ..
  then show ?thesis
    by (simp add: inject_def list_ex_filter_named)
qed

theorem inject_one_global_entry_mask_preserved_witness:
  "variableCollection
     (inject \<lparr>variableCollection =
                [\<lparr>name = ''X'', entry_value = ''old'', maskValue = True, entry_environment = Some ''Dev''\<rparr>,
                 \<lparr>name = ''X'', entry_value = ''older'', maskValue = False, entry_environment = None\<rparr>],
              otherFields = ''name: Test Queue''\<rparr>
        JSON [(''X'', ''v'')])
   = [\<lparr>name = ''X'', entry_value = ''v'', maskValue = True, entry_environment = None\<rparr>]"
  using inject_one_global_entry_mask_preserved[of "''X''" "[(''X'', ''v'')]"
      "\<lparr>variableCollection =
          [\<lparr>name = ''X'', entry_value = ''old'', maskValue = True, entry_environment = Some ''Dev''\<rparr>,
           \<lparr>name = ''X'', entry_value = ''older'', maskValue = False, entry_environment = None\<rparr>],
        otherFields = ''name: Test Queue''\<rparr>" JSON]
  by (simp add: inject_def injectOne_def)

section \<open>Properties of the file resolver\<close>

lemma mset_insertSorted: "mset (insertSorted cmp x ys) = add_mset x (mset ys)"
  by (induction ys) simp_all

lemma set_insertSorted: "set (insertSorted cmp x ys) = insert x (set ys)"
  by (induction ys) auto

lemma sorted_insertSorted:
  assumes "consistent cmp" "sorted_wrt (\<lambda>a b. cmp a b \<le> 0) ys"
  shows "sorted_wrt (\<lambda>a b. cmp a b \<le> 0) (insertSorted cmp x ys)"
  using assms(2)
proof (induction ys)
  case Nil
  show ?case by simp
next
  case (Cons y ys)
  from assms(1) have total: "\<And>a b. cmp a b \<le> 0 \<or> cmp b a \<le> 0"
    and trans: "\<And>a b c. cmp a b \<le> 0 \<Longrightarrow> cmp b c \<le> 0 \<Longrightarrow> cmp a c \<le> 0"
    unfolding consistent_def by blast+
  show ?case
  proof (cases "cmp x y \<le> 0")
    case True
    have "\<forall>z\<in>set ys. cmp x z \<le> 0"
    proof
      fix z assume "z \<in> set ys"
      with Cons.prems have "cmp y z \<le> 0" by simp
      with True show "cmp x z \<le> 0" by (rule trans)
    qed
    with True Cons.prems show ?thesis by simp
  next
    case False
    with total[of x y] have yx: "cmp y x \<le> 0" by simp
    from Cons.prems have "sorted_wrt (\<lambda>a b. cmp a b \<le> 0) ys" by simp
    from Cons.IH[OF this] yx Cons.prems False show ?thesis
      by (simp add: set_insertSorted)
  qed
qed

lemma mset_sortWith: "mset (sortWith cmp xs) = mset xs"
  by (induction xs) (simp_all add: sortWith_def mset_insertSorted)

lemma sorted_sortWith:
  assumes "consistent cmp"
  shows "sorted_wrt (\<lambda>a b. cmp a b \<le> 0) (sortWith cmp xs)"
proof (induction xs)
  case Nil
  show ?case by (simp add: sortWith_def)
next
  case (Cons x xs)
  from sorted_insertSorted[OF assms Cons.IH, of x] show ?case by (simp add: sortWith_def)
qed

lemma consistent_byBasename:
  assumes "consistent (localeCompare F)"
  shows "consistent (byBasename F)"
  using assms unfolding consistent_def byBasename_def by blast

lemma glob_not_blank:
  assumes "isGlobPattern p"
  shows "p \<noteq> [] \<and> trim p \<noteq> []"
proof -
  from assms obtain c where c: "c \<in> set p" "c \<in> set ''*?[]{}''"
    by (auto simp: isGlobPattern_def list_ex_iff)
  from c(2) have "\<forall>w\<in>set whiteSpace. c \<notin> set w" by (auto simp: whiteSpace_def)
  with c(1) have "c \<in> set (trim p)" by (rule trim_keeps)
  with c(1) show ?thesis by auto
qed

lemma compareCodes_total: "compareCodes a b \<le> 0 \<or> compareCodes b a \<le> 0"
  by (induction a b rule: compareCodes.induct) auto

lemma compareCodes_trans:
  "compareCodes a b \<le> 0 \<Longrightarrow> compareCodes b c \<le> 0 \<Longrightarrow> compareCodes a c \<le> 0"
proof (induction a arbitrary: b c)
  case Nil
  then show ?case by (cases c) simp_all
next
  case (Cons x xs)
  from Cons.prems(1) obtain y ys where b: "b = y # ys" by (cases b) auto
  from Cons.prems(2) b obtain z zs where c: "c = z # zs" by (cases c) auto
  show ?case
  proof (cases "(of_char x :: nat) < of_char z")
    case True
    then show ?thesis using c by simp
  next
    case False
    from Cons.prems b c have xy: "(of_char x :: nat) \<le> of_char y" and yz: "(of_char y :: nat) \<le> of_char z"
      by (auto split: if_splits)
    with False have "(of_char x :: nat) = of_char y" "(of_char y :: nat) = of_char z"
      by linarith+
    then have eq: "x = y" "y = z" by simp_all
    with Cons.prems b c have "compareCodes xs ys \<le> 0" "compareCodes ys zs \<le> 0" by simp_all
    from Cons.IH[OF this] eq c show ?thesis by simp
  qed
qed

lemma consistent_compareCodes: "consistent compareCodes"
  unfolding consistent_def using compareCodes_total compareCodes_trans by blast

text \<open>
  Claim C2. For every glob pattern that matches at least one file, \<open>resolveFiles\<close> returns
  the matched files, resolved, each as often as matched, in ascending order of their base
  names under the order of \<open>localeCompare\<close>; a literal path yields the single-element list of
  that path, resolved (when the file exists).
\<close>

theorem resolveFiles_sorted_by_basename:
  assumes "consistent (localeCompare F)"
  shows "(isGlobPattern p \<and> globSync F (forwardSlashes p) \<noteq> [] \<longrightarrow>
            (\<exists>fs. resolveFiles F p = Returned fs \<and>
                  mset fs = mset (map (pathResolve F) (globSync F (forwardSlashes p))) \<and>
                  sorted_wrt (\<lambda>a b. localeCompare F (pathBasename F a) (pathBasename F b) \<le> 0) fs)) \<and>
         (\<not> isGlobPattern p \<and> trim p \<noteq> [] \<and> existsSync F (pathResolve F p) \<longrightarrow>
            resolveFiles F p = Returned [pathResolve F p]) \<and>
         (\<not> isGlobPattern p \<longrightarrow> (\<forall>fs. resolveFiles F p = Returned fs \<longrightarrow> length fs = 1))"
proof (intro conjI impI)
  assume h: "isGlobPattern p \<and> globSync F (forwardSlashes p) \<noteq> []"
  let ?fs = "sortWith (byBasename F) (map (pathResolve F) (globSync F (forwardSlashes p)))"
  from h glob_not_blank[of p] have "resolveFiles F p = Returned ?fs"
    by (simp add: resolveFiles_def Let_def)
  moreover have "mset ?fs = mset (map (pathResolve F) (globSync F (forwardSlashes p)))"
    by (rule mset_sortWith)
  moreover have "sorted_wrt (\<lambda>a b. localeCompare F (pathBasename F a) (pathBasename F b) \<le> 0) ?fs"
    using sorted_sortWith[OF consistent_byBasename[OF assms]] by (simp add: byBasename_def)
  ultimately show "\<exists>fs. resolveFiles F p = Returned fs \<and>
      mset fs = mset (map (pathResolve F) (globSync F (forwardSlashes p))) \<and>
      sorted_wrt (\<lambda>a b. localeCompare F (pathBasename F a) (pathBasename F b) \<le> 0) fs"
    by (intro exI[of _ ?fs]) simp
next
  assume "\<not> isGlobPattern p \<and> trim p \<noteq> [] \<and> existsSync F (pathResolve F p)"
  moreover from this have "p \<noteq> []" using trim_Nil by auto
  ultimately show "resolveFiles F p = Returned [pathResolve F p]"
    by (simp add: resolveFiles_def Let_def)
next
  assume "\<not> isGlobPattern p"
  then show "\<forall>fs. resolveFiles F p = Returned fs \<longrightarrow> length fs = 1"
    by (auto simp: resolveFiles_def Let_def split: if_splits)
qed

theorem resolveFiles_sorted_by_basename_witness:
  "resolveFiles (exampleFiles [''b/02_flows.yaml'', ''a/03_webchat.yaml'', ''c/01_queues.yaml''])
      ''**/*.yaml''
   = Returned [''/w/c/01_queues.yaml'', ''/w/b/02_flows.yaml'', ''/w/a/03_webchat.yaml''] \<and>
   resolveFiles (exampleFiles []) ''changesets/deploy.yaml''
   = Returned [''/w/changesets/deploy.yaml'']"
proof -
  let ?F = "exampleFiles [''b/02_flows.yaml'', ''a/03_webchat.yaml'', ''c/01_queues.yaml'']"
  have c: "consistent (localeCompare ?F)" "consistent (localeCompare (exampleFiles []))"
    by (simp_all add: exampleFiles_def consistent_compareCodes)
  have lit: "\<not> isGlobPattern ''changesets/deploy.yaml'' \<and> trim ''changesets/deploy.yaml'' \<noteq> [] \<and>
      existsSync (exampleFiles []) (pathResolve (exampleFiles []) ''changesets/deploy.yaml'')"
    by (simp add: isGlobPattern_def exampleFiles_def allExist_def trim_defs)
  from resolveFiles_sorted_by_basename[OF c(2), of "''changesets/deploy.yaml''",
      THEN conjunct2, THEN conjunct1, THEN mp, OF lit]
  have one: "resolveFiles (exampleFiles []) ''changesets/deploy.yaml''
      = Returned [''/w/changesets/deploy.yaml'']"
    by (simp add: exampleFiles_def underWorkspace_def)
  have "resolveFiles ?F ''**/*.yaml''
      = Returned [''/w/c/01_queues.yaml'', ''/w/b/02_flows.yaml'', ''/w/a/03_webchat.yaml'']"
    by (simp add: resolveFiles_def isGlobPattern_def exampleFiles_def globMatches_def
        underWorkspace_def lastPart_def sortWith_def byBasename_def forwardSlashes_def
        trim_defs Let_def)
  with one show ?thesis by simp
qed

section \<open>Properties of the poller\<close>

declare pollLoop.simps [simp del]

lemma null_message_unmarked:
  "\<not> includesStr ''Cannot read properties of null (reading 'status')'' ''Poll failed''"
  by (simp add: startsWith_def)

lemma pollAttempt_state:
  "snd (pollAttempt W s) = s\<lparr>fetched := Suc (fetched s)\<rparr>"
  by (simp add: pollAttempt_def fetch_def split: reply.split res.split)

lemma pollAttempt_nonTerminal:
  assumes "nonTerminal (net W (fetched s))"
  shows "fst (pollAttempt W s) = Returned None \<or>
         (\<exists>m. fst (pollAttempt W s) = Thrown m \<and> \<not> includesStr m ''Poll failed'')"
proof (cases "net W (fetched s)")
  case (Rejected m)
  with assms show ?thesis by (simp add: pollAttempt_def fetch_def)
next
  case (Resolved r)
  with assms have okr: "ok r" by simp
  show ?thesis
  proof (cases "bodyJson r")
    case (Thrown m)
    with assms Resolved okr show ?thesis by (simp add: pollAttempt_def fetch_def)
  next
    case (Returned pollData)
    with assms Resolved have nt: "\<not> terminalStatus (getProp pollData ''status'')" by simp
    show ?thesis
    proof (cases "pollData = JNull")
      case True
      with Resolved Returned okr show ?thesis
        using null_message_unmarked by (simp add: pollAttempt_def fetch_def)
    next
      case False
      with Resolved Returned okr nt show ?thesis
        by (simp add: pollAttempt_def fetch_def terminalStatus_def)
    qed
  qed
qed

lemma pollLoop_fault_tick:
  assumes "elapsed < timeout_s" "fst (pollAttempt W s) = Thrown m"
    "\<not> includesStr m ''Poll failed''"
  shows "pollLoop W timeout_s elapsed s =
         pollLoop W timeout_s (elapsed + pollInterval)
           (warn m (s\<lparr>fetched := Suc (fetched s)\<rparr>))"
proof -
  have "pollAttempt W s = (Thrown m, s\<lparr>fetched := Suc (fetched s)\<rparr>)"
    using assms(2) pollAttempt_state[of W s] by (cases "pollAttempt W s") simp
  with assms(1,3) show ?thesis by (subst pollLoop.simps) simp
qed

lemma pollLoop_pending_tick:
  assumes "elapsed < timeout_s" "net W (fetched s) = Resolved r" "ok r"
    "bodyJson r = Returned pollData" "pollData \<noteq> JNull"
    "\<not> terminalStatus (getProp pollData ''status'')"
  shows "pollLoop W timeout_s elapsed s =
         pollLoop W timeout_s (elapsed + pollInterval) (s\<lparr>fetched := Suc (fetched s)\<rparr>)"
proof -
  have "pollAttempt W s = (Returned None, s\<lparr>fetched := Suc (fetched s)\<rparr>)"
    using assms(2-6) by (simp add: pollAttempt_def fetch_def terminalStatus_def)
  with assms(1) show ?thesis by (subst pollLoop.simps) simp
qed

lemma pollLoop_success_tick:
  assumes "elapsed < timeout_s" "net W (fetched s) = Resolved r" "ok r"
    "bodyJson r = Returned pollData" "getProp pollData ''status'' = Some (JStr ''SUCCESS'')"
  shows "pollLoop W timeout_s elapsed s =
         (Returned (SUCCESS (orEmptyObject (getProp pollData ''result''))),
          s\<lparr>fetched := Suc (fetched s)\<rparr>)"
proof -
  from assms(5) have "pollData \<noteq> JNull" by auto
  then have "pollAttempt W s =
      (Returned (Some (SUCCESS (orEmptyObject (getProp pollData ''result'')))),
       s\<lparr>fetched := Suc (fetched s)\<rparr>)"
    using assms(2-5) by (simp add: pollAttempt_def fetch_def)
  with assms(1) show ?thesis by (subst pollLoop.simps) simp
qed

lemma pollLoop_continues:
  assumes "elapsed < timeout_s" "nonTerminal (net W (fetched s))"
  shows "\<exists>s1. pollLoop W timeout_s elapsed s =
           pollLoop W timeout_s (elapsed + pollInterval) s1
         \<and> fetched s1 = Suc (fetched s) \<and> events s1 = events s"
proof -
  obtain x s' where att: "pollAttempt W s = (x, s')" by (cases "pollAttempt W s")
  then have s': "s' = s\<lparr>fetched := Suc (fetched s)\<rparr>"
    using pollAttempt_state[of W s] by simp
  from pollAttempt_nonTerminal[OF assms(2)] att
  consider "x = Returned None" | m where "x = Thrown m" "\<not> includesStr m ''Poll failed''"
    by auto
  then show ?thesis
  proof cases
    case 1
    with att assms(1) have "pollLoop W timeout_s elapsed s =
        pollLoop W timeout_s (elapsed + pollInterval) s'"
      by (subst pollLoop.simps) simp
    with s' show ?thesis by auto
  next
    case 2
    with att assms(1) have "pollLoop W timeout_s elapsed s =
        pollLoop W timeout_s (elapsed + pollInterval) (warn m s')"
      by (subst pollLoop.simps) simp
    moreover have "fetched (warn m s') = Suc (fetched s)" "events (warn m s') = events s"
      using s' by (simp_all add: warn_def)
    ultimately show ?thesis by blast
  qed
qed

lemma pollBudget_0: "pollBudget t = 0 \<Longrightarrow> t \<le> 0"
  by (auto simp: pollBudget_def split: if_splits)

lemma pollBudget_Suc:
  assumes "pollBudget (t - e) = Suc k"
  shows "e < t" "pollBudget (t - (e + pollInterval)) = k"
proof -
  from assms show "e < t" by (auto simp: pollBudget_def split: if_splits)
  from assms show "pollBudget (t - (e + pollInterval)) = k"
    by (auto simp: pollBudget_def pollInterval_def split: if_splits)
qed

lemma pollLoop_runs_out:
  assumes "pollBudget (timeout_s - elapsed) = k"
    "\<forall>i<k. nonTerminal (net W (fetched s + i))"
  shows "fst (pollLoop W timeout_s elapsed s) = Returned TIMEOUT \<and>
         fetched (snd (pollLoop W timeout_s elapsed s)) = fetched s + k \<and>
         events (snd (pollLoop W timeout_s elapsed s)) = events s"
  using assms
proof (induction k arbitrary: elapsed s)
  case 0
  from pollBudget_0[OF "0.prems"(1)] have "\<not> elapsed < timeout_s" by simp
  then show ?case by (subst (1 2 3) pollLoop.simps) simp
next
  case (Suc k)
  from pollBudget_Suc[OF Suc.prems(1)]
  have lt: "elapsed < timeout_s"
    and rest: "pollBudget (timeout_s - (elapsed + pollInterval)) = k" by auto
  from Suc.prems(2) have "nonTerminal (net W (fetched s))" by force
  from pollLoop_continues[OF lt this] obtain s1 where s1:
    "pollLoop W timeout_s elapsed s =
       pollLoop W timeout_s (elapsed + pollInterval) s1"
    "fetched s1 = Suc (fetched s)" "events s1 = events s" by blast
  have "\<forall>i<k. nonTerminal (net W (fetched s1 + i))"
  proof (intro allI impI)
    fix i assume "i < k"
    then have "nonTerminal (net W (fetched s + Suc i))" using Suc.prems(2) by blast
    then show "nonTerminal (net W (fetched s1 + i))" using s1(2) by simp
  qed
  from Suc.IH[OF rest this] s1 show ?case by simp
qed

lemma marked_nonempty: "includesStr m ''Poll failed'' \<Longrightarrow> m \<noteq> []"
  by (cases m) simp_all

lemma poll_failed_marked:
  "includesStr (''Poll failed with status '' @ rest) ''Poll failed''"
  by (simp add: startsWith_def)

text \<open>
  A reply that is not non-terminal ends the loop at once, and never with \<open>TIMEOUT\<close>: a
  terminal status is returned, a response that is not \<open>ok\<close> and a fault marked
  \<open>Poll failed\<close> are thrown.
\<close>

lemma pollLoop_ends:
  assumes "elapsed < timeout_s" "\<not> nonTerminal (net W (fetched s))"
  shows "fst (pollLoop W timeout_s elapsed s) \<noteq> Returned TIMEOUT"
proof (cases "net W (fetched s)")
  case (Rejected m)
  with assms(2) have mk: "includesStr m ''Poll failed''" by simp
  have "pollAttempt W s = (Thrown m, s\<lparr>fetched := Suc (fetched s)\<rparr>)"
    using Rejected by (simp add: pollAttempt_def fetch_def)
  with assms(1) mk marked_nonempty[OF mk] show ?thesis
    by (subst pollLoop.simps) simp
next
  case (Resolved r)
  show ?thesis
  proof (cases "ok r")
    case False
    let ?m = "''Poll failed with status '' @ (decimal (httpStatus r) @ '': '' @
        (if bodyText r \<noteq> [] then bodyText r else statusText r))"
    have att: "pollAttempt W s = (Thrown ?m, s\<lparr>fetched := Suc (fetched s)\<rparr>)"
      using Resolved False by (simp add: pollAttempt_def fetch_def)
    have mk: "includesStr ?m ''Poll failed''" by (rule poll_failed_marked)
    have ne: "?m \<noteq> []" by simp
    from assms(1) att mk ne show ?thesis
      by (subst pollLoop.simps) (simp del: append.simps append_assoc)
  next
    case okr: True
    show ?thesis
    proof (cases "bodyJson r")
      case (Thrown m)
      with assms(2) Resolved okr have mk: "includesStr m ''Poll failed''" by simp
      have "pollAttempt W s = (Thrown m, s\<lparr>fetched := Suc (fetched s)\<rparr>)"
        using Resolved okr Thrown by (simp add: pollAttempt_def fetch_def)
      with assms(1) mk marked_nonempty[OF mk] show ?thesis
        by (subst pollLoop.simps) simp
    next
      case (Returned pollData)
      with assms(2) Resolved okr have t: "terminalStatus (getProp pollData ''status'')" by simp
      then have nn: "pollData \<noteq> JNull" by (auto simp: terminalStatus_def)
      from t nn Resolved okr Returned
      obtain outcome where att: "pollAttempt W s =
          (Returned (Some outcome), s\<lparr>fetched := Suc (fetched s)\<rparr>)" and nt: "outcome \<noteq> TIMEOUT"
        by (auto simp: pollAttempt_def fetch_def terminalStatus_def)
      from assms(1) att nt show ?thesis
        by (subst pollLoop.simps) simp
    qed
  qed
qed

text \<open>
  Conversely to the claim below, \<open>TIMEOUT\<close> is returned only when every request the timeout
  admits meets a non-terminal reply: that condition is exactly the loop running out of time.
\<close>

lemma pollLoop_timeout_only_if:
  assumes "pollBudget (timeout_s - elapsed) = k"
    "fst (pollLoop W timeout_s elapsed s) = Returned TIMEOUT"
  shows "\<forall>i<k. nonTerminal (net W (fetched s + i))"
  using assms
proof (induction k arbitrary: elapsed s)
  case 0
  show ?case by simp
next
  case (Suc k)
  from pollBudget_Suc[OF Suc.prems(1)]
  have lt: "elapsed < timeout_s"
    and rest: "pollBudget (timeout_s - (elapsed + pollInterval)) = k" by auto
  have first: "nonTerminal (net W (fetched s))"
    using pollLoop_ends[OF lt, of W s] Suc.prems(2) by auto
  from pollLoop_continues[OF lt first] obtain s1 where s1:
    "pollLoop W timeout_s elapsed s = pollLoop W timeout_s (elapsed + pollInterval) s1"
    "fetched s1 = Suc (fetched s)" by blast
  with Suc.prems(2) have "fst (pollLoop W timeout_s (elapsed + pollInterval) s1) = Returned TIMEOUT"
    by simp
  from Suc.IH[OF rest this] have later: "\<forall>i<k. nonTerminal (net W (fetched s1 + i))" .
  show ?case
  proof (intro allI impI)
    fix i assume i: "i < Suc k"
    show "nonTerminal (net W (fetched s + i))"
    proof (cases i)
      case 0
      with first show ?thesis by simp
    next
      case (Suc j)
      with i later s1(2) show ?thesis by simp
    qed
  qed
qed

lemma pollTask_timeout_only_if:
  assumes "fst (pollTask W base_url api_key task_id label timeout_s s) = Returned TIMEOUT"
  shows "\<forall>i<pollBudget timeout_s. nonTerminal (net W (fetched s + i))"
  using pollLoop_timeout_only_if[of timeout_s 0 "pollBudget timeout_s" W s] assms
  by (simp add: pollTask_def)

text \<open>
  Claim C4. With the fixed interval of 5 seconds, when every status request the timeout
  admits (one per started interval) meets no terminal remote status and nothing fatal, so that
  the accumulated elapsed time reaches \<open>timeoutSeconds\<close>, \<open>pollTask\<close> returns \<open>TIMEOUT\<close>, having
  issued exactly that many requests; for a timeout of 10 seconds and a status endpoint that
  only ever reports \<open>PENDING\<close> these are exactly 2 requests. (By \<open>pollTask_timeout_only_if\<close>
  the condition is also necessary for \<open>TIMEOUT\<close>.)
\<close>

theorem pollTask_timeout:
  assumes "\<forall>i<pollBudget timeout_s. nonTerminal (net W (fetched s + i))"
  shows "fst (pollTask W base_url api_key task_id label timeout_s s) = Returned TIMEOUT \<and>
         fetched (snd (pollTask W base_url api_key task_id label timeout_s s))
           = fetched s + pollBudget timeout_s"
  using pollLoop_runs_out[of timeout_s 0 "pollBudget timeout_s" W s] assms
  by (simp add: pollTask_def)

theorem pollTask_timeout_witness:
  "fst (pollTask (worldOf (always pendingReply)) ''https://test.inprod.io'' ''key'' ''task-1''
          ''Execution'' 10 start) = Returned TIMEOUT \<and>
   fetched (snd (pollTask (worldOf (always pendingReply)) ''https://test.inprod.io'' ''key''
          ''task-1'' ''Execution'' 10 start)) = 2"
proof -
  have nt: "nonTerminal pendingReply"
    by (simp add: pendingReply_def okJson_def terminalStatus_def)
  have "\<forall>i<pollBudget 10. nonTerminal (net (worldOf (always pendingReply)) (fetched start + i))"
    using nt by (simp add: worldOf_def always_def)
  from pollTask_timeout[OF this, of "''https://test.inprod.io''" "''key''" "''task-1''"
      "''Execution''"]
  show ?thesis by (simp add: pollBudget_def start_def)
qed

text \<open>
  Claim C5, as amended. A transport-level fault during a poll attempt whose message does not
  contain \<open>Poll failed\<close> never escalates to a thrown error: it is logged as a warning and the
  loop goes on with one interval of the budget and one request consumed, exactly as after a
  response with a non-terminal status; so, when the timeout admits a second request (more
  than 5 seconds), a single such fault followed by a \<open>SUCCESS\<close> response still makes
  \<open>pollTask\<close> return \<open>SUCCESS\<close> with the result of that response. The theorem states this of
  every error that a poll attempt throws, whether \<open>fetch\<close> rejects (the transport-level
  fault) or the body of the response cannot be read.
\<close>

theorem pollTask_transient_fault:
  assumes "fst (pollAttempt W s) = Thrown m" "\<not> includesStr m ''Poll failed''"
  shows "(elapsed < timeout_s \<longrightarrow>
            pollLoop W timeout_s elapsed s =
            pollLoop W timeout_s (elapsed + pollInterval)
              (warn m (s\<lparr>fetched := Suc (fetched s)\<rparr>))) \<and>
         (elapsed < timeout_s \<and> net W' (fetched s) = Resolved r' \<and> ok r' \<and>
          bodyJson r' = Returned pending \<and> pending \<noteq> JNull \<and>
          \<not> terminalStatus (getProp pending ''status'') \<longrightarrow>
            pollLoop W' timeout_s elapsed s =
            pollLoop W' timeout_s (elapsed + pollInterval)
              (s\<lparr>fetched := Suc (fetched s)\<rparr>)) \<and>
         (5 < timeout_s \<and> net W (Suc (fetched s)) = Resolved r \<and> ok r \<and>
          bodyJson r = Returned pollData \<and> getProp pollData ''status'' = Some (JStr ''SUCCESS'') \<longrightarrow>
            pollTask W base_url api_key task_id label timeout_s s =
              (Returned (SUCCESS (orEmptyObject (getProp pollData ''result''))),
               warn m (s\<lparr>fetched := fetched s + 2\<rparr>)))"
proof (intro conjI impI)
  assume "elapsed < timeout_s"
  then show "pollLoop W timeout_s elapsed s =
      pollLoop W timeout_s (elapsed + pollInterval)
        (warn m (s\<lparr>fetched := Suc (fetched s)\<rparr>))"
    using assms by (rule pollLoop_fault_tick)
next
  assume "elapsed < timeout_s \<and> net W' (fetched s) = Resolved r' \<and> ok r' \<and>
      bodyJson r' = Returned pending \<and> pending \<noteq> JNull \<and>
      \<not> terminalStatus (getProp pending ''status'')"
  then show "pollLoop W' timeout_s elapsed s =
      pollLoop W' timeout_s (elapsed + pollInterval) (s\<lparr>fetched := Suc (fetched s)\<rparr>)"
    by (intro pollLoop_pending_tick) auto
next
  assume h: "5 < timeout_s \<and> net W (Suc (fetched s)) = Resolved r \<and> ok r \<and>
      bodyJson r = Returned pollData \<and> getProp pollData ''status'' = Some (JStr ''SUCCESS'')"
  let ?s1 = "warn m (s\<lparr>fetched := Suc (fetched s)\<rparr>)"
  have first: "pollLoop W timeout_s 0 s = pollLoop W timeout_s (0 + pollInterval) ?s1"
    using h assms by (intro pollLoop_fault_tick) auto
  have f1: "fetched ?s1 = Suc (fetched s)" by (simp add: warn_def)
  have second: "pollLoop W timeout_s (0 + pollInterval) ?s1 =
      (Returned (SUCCESS (orEmptyObject (getProp pollData ''result''))),
       ?s1\<lparr>fetched := Suc (fetched ?s1)\<rparr>)"
    using h f1 by (intro pollLoop_success_tick[where r = r]) (auto simp: pollInterval_def)
  have "?s1\<lparr>fetched := Suc (fetched ?s1)\<rparr> = warn m (s\<lparr>fetched := fetched s + 2\<rparr>)"
    by (simp add: warn_def)
  with first second
  show "pollTask W base_url api_key task_id label timeout_s s =
      (Returned (SUCCESS (orEmptyObject (getProp pollData ''result''))),
       warn m (s\<lparr>fetched := fetched s + 2\<rparr>))"
    by (simp add: pollTask_def)
qed


theorem pollTask_transient_fault_witness:
  "pollTask (scriptedWorld [Rejected ''Network error'',
                            pollReply ''SUCCESS'' (JObj [(''run_id'', JNum 7)])])
      ''https://test.inprod.io'' ''key'' ''task-1'' ''Execution'' 60 start
   = (Returned (SUCCESS (JObj [(''run_id'', JNum 7)])),
      \<lparr>fetched = 2, warnings = [''Error during polling: Network error. Retrying...''],
       events = []\<rparr>)"
  (is "pollTask ?W _ _ _ _ _ _ = _")
proof -
  let ?r = "\<lparr>ok = True, httpStatus = 200, statusText = ''OK'', bodyText = [],
     bodyJson = Returned (JObj [(''status'', JStr ''SUCCESS''),
       (''result'', JObj [(''run_id'', JNum 7)])])\<rparr>"
  have a1: "fst (pollAttempt ?W start) = Thrown ''Network error''"
    by (simp add: pollAttempt_def fetch_def scriptedWorld_def worldOf_def scripted_def start_def)
  have a2: "\<not> includesStr ''Network error'' ''Poll failed''"
    by (simp add: startsWith_def)
  have a3: "5 < (60::int) \<and> net ?W (Suc (fetched start)) = Resolved ?r \<and> ok ?r \<and>
      bodyJson ?r = Returned (JObj [(''status'', JStr ''SUCCESS''),
        (''result'', JObj [(''run_id'', JNum 7)])]) \<and>
      getProp (JObj [(''status'', JStr ''SUCCESS''), (''result'', JObj [(''run_id'', JNum 7)])])
        ''status'' = Some (JStr ''SUCCESS'')"
    by (simp add: scriptedWorld_def worldOf_def scripted_def start_def pollReply_def okJson_def)
  from pollTask_transient_fault[OF a1 a2, THEN conjunct2, THEN conjunct2, THEN mp, OF a3]
  show ?thesis by (simp add: warn_def start_def orEmptyObject_def)
qed

text \<open>
  The claim as written lets no transport-level fault escalate; a rejected \<open>fetch\<close> whose
  message contains \<open>Poll failed\<close> is rethrown by the \<open>catch\<close>, although a \<open>SUCCESS\<close> response
  would have followed.
\<close>

theorem pollTask_marked_fault_counterexample:
  "fst (pollTask (scriptedWorld [Rejected ''Poll failed: socket hang up'',
                                 pollReply ''SUCCESS'' (JObj [(''run_id'', JNum 7)])])
         ''https://test.inprod.io'' ''key'' ''task-1'' ''Execution'' 60 start)
   = Thrown ''Poll failed: socket hang up''"
  by (simp add: pollTask_def pollLoop.simps pollAttempt_def fetch_def scriptedWorld_def
      worldOf_def scripted_def start_def startsWith_def)

section \<open>Properties of the operations\<close>

lemma warn_fields: "fetched (warn m s) = fetched s" "events (warn m s) = events s"
  by (simp_all add: warn_def)

lemma pollLoop_events: "events (snd (pollLoop W t e s)) = events s"
proof (induction "nat (t - e)" arbitrary: e s rule: less_induct)
  case less
  show ?case
  proof (cases "e < t")
    case False
    then show ?thesis by (subst pollLoop.simps) simp
  next
    case True
    obtain x s1 where att: "pollAttempt W s = (x, s1)" by (cases "pollAttempt W s")
    then have s1: "events s1 = events s" using pollAttempt_state[of W s] by simp
    have smaller: "nat (t - (e + pollInterval)) < nat (t - e)"
      using True by (simp add: pollInterval_def)
    have nxt: "\<And>s2. events s2 = events s \<Longrightarrow>
        events (snd (pollLoop W t (e + pollInterval) s2)) = events s"
      using less[OF smaller] by simp
    show ?thesis
    proof (cases x)
      case (Thrown m)
      show ?thesis
      proof (cases "m \<noteq> [] \<and> includesStr m ''Poll failed''")
        case True
        with att Thrown \<open>e < t\<close> s1 show ?thesis by (subst pollLoop.simps) simp
      next
        case False
        then have "pollLoop W t e s = pollLoop W t (e + pollInterval) (warn m s1)"
          using att Thrown \<open>e < t\<close> by (subst pollLoop.simps) auto
        with nxt[of "warn m s1"] s1 show ?thesis by (simp add: warn_fields)
      qed
    next
      case (Returned o1)
      show ?thesis
      proof (cases o1)
        case None
        then have "pollLoop W t e s = pollLoop W t (e + pollInterval) s1"
          using att Returned \<open>e < t\<close> by (subst pollLoop.simps) simp
        with nxt[of s1] s1 show ?thesis by simp
      next
        case (Some outcome)
        with att Returned \<open>e < t\<close> s1 show ?thesis by (subst pollLoop.simps) simp
      qed
    qed
  qed
qed

lemma pollTask_events: "events (snd (pollTask W b a tid l t s)) = events s"
  by (simp add: pollTask_def pollLoop_events)

lemma submit_events: "events (snd (submit W url a b c d s)) = events s"
  by (simp add: submit_def fetch_def split: reply.split res.split option.split json.split)

lemma validateFile_sound:
  assumes "validateFile W opts f s = (r, s')"
  shows "events s' = events s \<and> (\<forall>v. r = Returned v \<longrightarrow> knownStatus (status v))"
proof (cases "readFileSync W f")
  case (Thrown m)
  with assms show ?thesis by (auto simp: validateFile_def)
next
  case (Returned content)
  let ?url = "buildUrl W (baseUrl opts)
      (if getFileFormat W f = ''json'' then ''/api/v1/change-set/change-set/validate_json/''
       else ''/api/v1/change-set/change-set/validate_yaml/'') (environment opts)"
  obtain x s1 where sub: "submit W ?url ''Validation request failed with status ''
      ''Failed to extract task_id from validation response. Response: ''
      ''Validation API returned an empty task_id''
      ''validateTaskId.trim is not a function'' s = (x, s1)"
    by (cases "submit W ?url ''Validation request failed with status ''
      ''Failed to extract task_id from validation response. Response: ''
      ''Validation API returned an empty task_id''
      ''validateTaskId.trim is not a function'' s")
  then have e1: "events s1 = events s"
    using submit_events[of W ?url "''Validation request failed with status ''"
      "''Failed to extract task_id from validation response. Response: ''"
      "''Validation API returned an empty task_id''"
      "''validateTaskId.trim is not a function''" s] by simp
  show ?thesis
  proof (cases x)
    case (Thrown m)
    with assms Returned sub e1 show ?thesis by (auto simp: validateFile_def Let_def)
  next
    case tid: (Returned t)
    obtain y s2 where pl: "pollTask W (baseUrl opts) (apiKey opts) t ''Validation''
        (pollingTimeoutSeconds opts) s1 = (y, s2)"
      by (cases "pollTask W (baseUrl opts) (apiKey opts) t ''Validation''
        (pollingTimeoutSeconds opts) s1")
    then have e2: "events s2 = events s"
      using pollTask_events[of W "baseUrl opts" "apiKey opts" t "''Validation''"
        "pollingTimeoutSeconds opts" s1] e1 by simp
    show ?thesis
    proof (cases y)
      case (Thrown m)
      with assms Returned sub tid pl e2 show ?thesis by (auto simp: validateFile_def Let_def)
    next
      case out: (Returned outcome)
      with assms Returned sub tid pl e2 show ?thesis
        by (cases outcome) (auto simp: validateFile_def Let_def knownStatus_def split: if_splits)
    qed
  qed
qed

lemma validateFile_success:
  assumes "validateFile W opts f s = (r, s')"
  shows "\<forall>v. r = Returned v \<and> status v = ''SUCCESS'' \<longrightarrow> error v = None"
proof (cases "readFileSync W f")
  case (Thrown m)
  with assms show ?thesis by (auto simp: validateFile_def)
next
  case (Returned content)
  let ?url = "buildUrl W (baseUrl opts)
      (if getFileFormat W f = ''json'' then ''/api/v1/change-set/change-set/validate_json/''
       else ''/api/v1/change-set/change-set/validate_yaml/'') (environment opts)"
  obtain x s1 where sub: "submit W ?url ''Validation request failed with status ''
      ''Failed to extract task_id from validation response. Response: ''
      ''Validation API returned an empty task_id''
      ''validateTaskId.trim is not a function'' s = (x, s1)"
    by (cases "submit W ?url ''Validation request failed with status ''
      ''Failed to extract task_id from validation response. Response: ''
      ''Validation API returned an empty task_id''
      ''validateTaskId.trim is not a function'' s")
  then have e1: "events s1 = events s"
    using submit_events[of W ?url "''Validation request failed with status ''"
      "''Failed to extract task_id from validation response. Response: ''"
      "''Validation API returned an empty task_id''"
      "''validateTaskId.trim is not a function''" s] by simp
  show ?thesis
  proof (cases x)
    case (Thrown m)
    with assms Returned sub e1 show ?thesis by (auto simp: validateFile_def Let_def)
  next
    case tid: (Returned t)
    obtain y s2 where pl: "pollTask W (baseUrl opts) (apiKey opts) t ''Validation''
        (pollingTimeoutSeconds opts) s1 = (y, s2)"
      by (cases "pollTask W (baseUrl opts) (apiKey opts) t ''Validation''
        (pollingTimeoutSeconds opts) s1")
    then have e2: "events s2 = events s"
      using pollTask_events[of W "baseUrl opts" "apiKey opts" t "''Validation''"
        "pollingTimeoutSeconds opts" s1] e1 by simp
    show ?thesis
    proof (cases y)
      case (Thrown m)
      with assms Returned sub tid pl e2 show ?thesis by (auto simp: validateFile_def Let_def)
    next
      case out: (Returned outcome)
      with assms Returned sub tid pl e2 show ?thesis
        by (cases outcome) (auto simp: validateFile_def Let_def knownStatus_def split: if_splits)
    qed
  qed
qed

lemma executeFile_sound:
  assumes "executeFile W opts f s = (r, s')"
  shows "events s' = events s \<and> (\<forall>v. r = Returned v \<longrightarrow> knownStatus (status v))"
proof (cases "readFileSync W f")
  case (Thrown m)
  with assms show ?thesis by (auto simp: executeFile_def)
next
  case (Returned content)
  let ?url = "buildUrl W (baseUrl opts)
      (if getFileFormat W f = ''json'' then ''/api/v1/change-set/change-set/execute_json/''
       else ''/api/v1/change-set/change-set/execute_yaml/'') (environment opts)"
  obtain x s1 where sub: "submit W ?url ''API request failed with status ''
      ''Failed to extract task_id from API response. Response: ''
      ''API returned an empty task_id'' ''taskId.trim is not a function'' s = (x, s1)"
    by (cases "submit W ?url ''API request failed with status ''
      ''Failed to extract task_id from API response. Response: ''
      ''API returned an empty task_id'' ''taskId.trim is not a function'' s")
  then have e1: "events s1 = events s"
    using submit_events[of W ?url "''API request failed with status ''"
      "''Failed to extract task_id from API response. Response: ''"
      "''API returned an empty task_id''" "''taskId.trim is not a function''" s] by simp
  show ?thesis
  proof (cases x)
    case (Thrown m)
    with assms Returned sub e1 show ?thesis by (auto simp: executeFile_def Let_def)
  next
    case tid: (Returned t)
    obtain y s2 where pl: "pollTask W (baseUrl opts) (apiKey opts) t ''Execution''
        (pollingTimeoutSeconds opts) s1 = (y, s2)"
      by (cases "pollTask W (baseUrl opts) (apiKey opts) t ''Execution''
        (pollingTimeoutSeconds opts) s1")
    then have e2: "events s2 = events s"
      using pollTask_events[of W "baseUrl opts" "apiKey opts" t "''Execution''"
        "pollingTimeoutSeconds opts" s1] e1 by simp
    show ?thesis
    proof (cases y)
      case (Thrown m)
      with assms Returned sub tid pl e2 show ?thesis by (auto simp: executeFile_def Let_def)
    next
      case out: (Returned outcome)
      with assms Returned sub tid pl e2 show ?thesis
        by (cases outcome) (auto simp: executeFile_def Let_def knownStatus_def)
    qed
  qed
qed

lemma traced_validate:
  assumes "traced (Validated f) (validateFile W opts f) s = (r, s')"
  shows "events s' = events s @ [Validated f r] \<and> (\<forall>v. r = Returned v \<longrightarrow> knownStatus (status v))"
proof -
  obtain r0 s0 where c: "validateFile W opts f s = (r0, s0)" by (cases "validateFile W opts f s")
  from validateFile_sound[OF c] c assms show ?thesis by (auto simp: traced_def)
qed

lemma traced_execute:
  assumes "traced (Executed f) (executeFile W opts f) s = (r, s')"
  shows "events s' = events s @ [Executed f r] \<and> (\<forall>v. r = Returned v \<longrightarrow> knownStatus (status v))"
proof -
  obtain r0 s0 where c: "executeFile W opts f s = (r0, s0)" by (cases "executeFile W opts f s")
  from executeFile_sound[OF c] c assms show ?thesis by (auto simp: traced_def)
qed

lemma traced_validate_success:
  assumes "traced (Validated f) (validateFile W opts f) s = (Returned v, s')"
    "status v = ''SUCCESS''"
  shows "error v = None"
proof -
  obtain r0 s0 where c: "validateFile W opts f s = (r0, s0)" by (cases "validateFile W opts f s")
  with assms(1) have "r0 = Returned v" by (simp add: traced_def)
  with validateFile_success[OF c] assms(2) show ?thesis by simp
qed

lemma executeStep_sound:
  assumes "executeStep W opts f s = (r, s')"
  shows "(\<exists>x. events s' = events s @ [Executed f x]) \<and>
         (\<forall>v. r = Returned v \<longrightarrow> knownStatus (status v))"
proof -
  obtain x s1 where c: "traced (Executed f) (executeFile W opts f) s = (x, s1)"
    by (cases "traced (Executed f) (executeFile W opts f) s")
  from traced_execute[OF c] c assms show ?thesis
    by (cases x) (auto simp: executeStep_def split: if_splits)
qed

text \<open>
  What one call of \<open>processSingleFile\<close> adds to the trace: with both validation toggles off
  a single execution; otherwise a validation, followed by an execution only when that
  validation returned \<open>SUCCESS\<close> and \<open>validateOnly\<close> is off.
\<close>

lemma processSingleFile_sound:
  assumes "processSingleFile W opts f s = (r, s')"
  shows "(\<exists>evs. events s' = events s @ evs \<and>
            (\<not> validateOnly opts \<and> \<not> validateBeforeExecute opts \<longrightarrow> list_all isExecuted evs) \<and>
            (validateOnly opts \<longrightarrow> list_all isValidated evs)) \<and>
         (\<forall>v. r = Returned v \<longrightarrow> knownStatus (status v))"
proof (cases "validateOnly opts \<or> validateBeforeExecute opts")
  case False
  then have "executeStep W opts f s = (r, s')" using assms by (simp add: processSingleFile_def)
  from executeStep_sound[OF this] False show ?thesis by auto
next
  case True
  obtain x s1 where c: "traced (Validated f) (validateFile W opts f) s = (x, s1)"
    by (cases "traced (Validated f) (validateFile W opts f) s")
  note tv = traced_validate[OF c]
  show ?thesis
  proof (cases x)
    case (Thrown m)
    with assms True c tv show ?thesis by (auto simp: processSingleFile_def)
  next
    case (Returned valResult)
    show ?thesis
    proof (cases "status valResult \<noteq> ''SUCCESS'' \<or> validateOnly opts")
      case stop: True
      with assms True c tv Returned show ?thesis
        by (auto simp: processSingleFile_def knownStatus_def)
    next
      case go: False
      with assms True c Returned have ex: "executeStep W opts f s1 = (r, s')"
        by (simp add: processSingleFile_def)
      from executeStep_sound[OF ex] tv go True show ?thesis by auto
    qed
  qed
qed

section \<open>Properties of the aggregation\<close>

lemma priority_values:
  "priority ''FAILURE'' = 0" "priority ''TIMEOUT'' = 1" "priority ''REVOKED'' = 2"
  "priority ''SUBMITTED'' = 3" "priority ''SUCCESS'' = 4"
  by (simp_all add: priority_def STATUS_PRIORITY_def)

lemma known_status_cases:
  assumes "s \<in> dom STATUS_PRIORITY"
  shows "s = ''FAILURE'' \<or> s = ''TIMEOUT'' \<or> s = ''REVOKED'' \<or> s = ''SUBMITTED'' \<or> s = ''SUCCESS''"
  using assms by (auto simp: STATUS_PRIORITY_def dom_def split: if_splits)

lemma priority_inj:
  assumes "s \<in> dom STATUS_PRIORITY" "t \<in> dom STATUS_PRIORITY" "priority s = priority t"
  shows "s = t"
  using known_status_cases[OF assms(1)] known_status_cases[OF assms(2)] assms(3)
  by (auto simp: priority_values)

lemma priority_le_SUCCESS:
  assumes "s \<in> dom STATUS_PRIORITY"
  shows "priority s \<le> priority ''SUCCESS''"
  using known_status_cases[OF assms] by (auto simp: priority_values)

lemma foldl_worstStep_le_start: "priority (foldl worstStep w rs) \<le> priority w"
proof (induction rs arbitrary: w)
  case Nil
  show ?case by simp
next
  case (Cons r rs)
  have "priority (foldl worstStep (worstStep w r) rs) \<le> priority (worstStep w r)"
    by (rule Cons.IH)
  also have "priority (worstStep w r) \<le> priority w"
    by (simp add: worstStep_def)
  finally show ?case by simp
qed

lemma foldl_worstStep_le_each:
  assumes "r \<in> set rs"
  shows "priority (foldl worstStep w rs) \<le> priority (status r)"
  using assms
proof (induction rs arbitrary: w)
  case Nil
  then show ?case by simp
next
  case (Cons x xs)
  show ?case
  proof (cases "r = x")
    case True
    have "priority (foldl worstStep (worstStep w x) xs) \<le> priority (worstStep w x)"
      by (rule foldl_worstStep_le_start)
    also have "priority (worstStep w x) \<le> priority (status x)"
      by (simp add: worstStep_def)
    finally show ?thesis using True by simp
  next
    case False
    with Cons.prems have "r \<in> set xs" by simp
    from Cons.IH[OF this] show ?thesis by simp
  qed
qed

lemma foldl_worstStep_present:
  "foldl worstStep w rs = w \<or> foldl worstStep w rs \<in> status ` set rs"
proof (induction rs arbitrary: w)
  case Nil
  show ?case by simp
next
  case (Cons x xs)
  from Cons.IH[of "worstStep w x"] show ?case
    by (auto simp: worstStep_def split: if_splits)
qed

lemma worstStatus_le_each:
  "r \<in> set rs \<Longrightarrow> priority (worstStatus rs) \<le> priority (status r)"
  unfolding worstStatus_def by (rule foldl_worstStep_le_each)

lemma worstStatus_present:
  assumes known: "\<forall>r\<in>set rs. status r \<in> dom STATUS_PRIORITY" and ne: "rs \<noteq> []"
  shows "worstStatus rs \<in> status ` set rs"
proof -
  from foldl_worstStep_present[of "''SUCCESS''" rs]
  consider "worstStatus rs = ''SUCCESS''" | "worstStatus rs \<in> status ` set rs"
    unfolding worstStatus_def by blast
  then show ?thesis
  proof cases
    case 1
    from ne obtain r where r: "r \<in> set rs" by (cases rs) auto
    have "priority ''SUCCESS'' \<le> priority (status r)"
      using worstStatus_le_each[OF r] 1 by simp
    moreover have "priority (status r) \<le> priority ''SUCCESS''"
      using known r by (intro priority_le_SUCCESS) blast
    ultimately have "priority (status r) = priority ''SUCCESS''" by simp
    moreover have "status r \<in> dom STATUS_PRIORITY" using known r by blast
    moreover have "''SUCCESS'' \<in> dom STATUS_PRIORITY" by (simp add: STATUS_PRIORITY_def)
    ultimately have "status r = ''SUCCESS''" by (rule priority_inj[rotated 2])
    with r 1 show ?thesis by force
  next
    case 2
    then show ?thesis .
  qed
qed

text \<open>
  Claim C7. \<open>worstStatus([])\<close> is \<open>SUCCESS\<close>; and for every non-empty list of file results
  whose statuses are among the five ranked ones, \<open>worstStatus\<close> is the one status present in
  the list that ranks at least as bad as every entry, under
  \<open>FAILURE > TIMEOUT > REVOKED > SUBMITTED > SUCCESS\<close> (priorities 0 to 4, 0 is worst).
\<close>

theorem worstStatus_is_worst:
  fixes rs :: "file_result list"
  shows "worstStatus ([] :: file_result list) = ''SUCCESS'' \<and>
    ((\<forall>r\<in>set rs. status r \<in> dom STATUS_PRIORITY) \<longrightarrow> rs \<noteq> [] \<longrightarrow>
      (\<forall>s. (s \<in> status ` set rs \<and> (\<forall>r\<in>set rs. priority s \<le> priority (status r)))
            \<longleftrightarrow> s = worstStatus rs))"
proof (intro conjI impI allI)
  show "worstStatus ([] :: file_result list) = ''SUCCESS''"
    by (simp add: worstStatus_def)
next
  fix s
  assume known: "\<forall>r\<in>set rs. status r \<in> dom STATUS_PRIORITY" and ne: "rs \<noteq> []"
  have present: "worstStatus rs \<in> status ` set rs"
    by (rule worstStatus_present[OF known ne])
  show "(s \<in> status ` set rs \<and> (\<forall>r\<in>set rs. priority s \<le> priority (status r)))
      \<longleftrightarrow> s = worstStatus rs"
  proof
    assume h: "s \<in> status ` set rs \<and> (\<forall>r\<in>set rs. priority s \<le> priority (status r))"
    then obtain r where r: "r \<in> set rs" "s = status r" by auto
    from present obtain q where q: "q \<in> set rs" "worstStatus rs = status q" by auto
    have "priority s \<le> priority (worstStatus rs)" using h q by simp
    moreover have "priority (worstStatus rs) \<le> priority s"
      using worstStatus_le_each[OF r(1)] r(2) by simp
    ultimately have "priority s = priority (worstStatus rs)" by simp
    moreover have "s \<in> dom STATUS_PRIORITY" using known r by blast
    moreover have "worstStatus rs \<in> dom STATUS_PRIORITY" using known q by simp
    ultimately show "s = worstStatus rs" by (rule priority_inj[rotated 2])
  next
    assume "s = worstStatus rs"
    then show "s \<in> status ` set rs \<and> (\<forall>r\<in>set rs. priority s \<le> priority (status r))"
      using present worstStatus_le_each by blast
  qed
qed

theorem worstStatus_is_worst_witness:
  "worstStatus
     [\<lparr>taskId = None, status = ''SUCCESS'', result = JObj [], error = None,
        file_path = ''01_queues.yaml''\<rparr>,
      \<lparr>taskId = Some ''t-2'', status = ''TIMEOUT'', result = JObj [],
        error = Some ''Validation did not complete within 600 seconds'',
        file_path = ''02_flows.yaml''\<rparr>,
      \<lparr>taskId = None, status = ''REVOKED'', result = JObj [],
        error = Some ''Validation task was cancelled'', file_path = ''03_webchat.yaml''\<rparr>]
   = ''TIMEOUT''"
  (is "worstStatus ?rs = _")
proof -
  have known: "\<forall>r\<in>set ?rs. status r \<in> dom STATUS_PRIORITY"
    by (simp add: STATUS_PRIORITY_def)
  have ne: "?rs \<noteq> []" by simp
  have cand: "''TIMEOUT'' \<in> status ` set ?rs \<and>
      (\<forall>r\<in>set ?rs. priority ''TIMEOUT'' \<le> priority (status r))"
    by (simp add: priority_values)
  note char = worstStatus_is_worst[of ?rs, THEN conjunct2, THEN mp, OF known, THEN mp, OF ne,
      THEN spec, of "''TIMEOUT''"]
  from iffD1[OF char cand] show ?thesis by (rule sym)
qed

section \<open>The aggregate status and the reported entries\<close>

lemma worstStatus_by_statuses:
  "worstStatus rs =
     foldl (\<lambda>worst st. if priority st < priority worst then st else worst) ''SUCCESS''
       (map status rs)"
proof -
  have "foldl worstStep w rs =
     foldl (\<lambda>worst st. if priority st < priority worst then st else worst) w (map status rs)" for w
    by (induction rs arbitrary: w) (simp_all add: worstStep_def)
  then show ?thesis by (simp add: worstStatus_def)
qed

lemma worstStatus_toReport: "worstStatus (map (toReport W) rs) = worstStatus rs"
proof -
  have "map status (map (toReport W) rs) = map status rs"
    by (simp add: toReport_def)
  then show ?thesis by (simp only: worstStatus_by_statuses)
qed

lemma knownStatus_bad:
  "knownStatus st \<Longrightarrow>
     (st = ''FAILURE'' \<or> st = ''TIMEOUT'' \<or> st = ''REVOKED'') = (st \<noteq> ''SUCCESS'')"
  by (auto simp: knownStatus_def)

lemma bad_priority:
  assumes "st = ''FAILURE'' \<or> st = ''TIMEOUT'' \<or> st = ''REVOKED''"
  shows "priority st \<le> 2"
  using assms by (auto simp: priority_values)

lemma worstStatus_SUCCESS_or_present:
  "worstStatus rs = ''SUCCESS'' \<or> (\<exists>r\<in>set rs. status r = worstStatus rs)"
proof -
  from foldl_worstStep_present[of "''SUCCESS''" rs]
  have "worstStatus rs = ''SUCCESS'' \<or> worstStatus rs \<in> status ` set rs"
    unfolding worstStatus_def .
  then show ?thesis
  proof
    assume "worstStatus rs = ''SUCCESS''"
    then show ?thesis ..
  next
    assume "worstStatus rs \<in> status ` set rs"
    then obtain r where "r \<in> set rs" "worstStatus rs = status r" by (rule imageE)
    then have "\<exists>r\<in>set rs. status r = worstStatus rs" by (intro bexI[of _ r]) simp_all
    then show ?thesis ..
  qed
qed

lemma worstStatus_bad_iff:
  assumes known: "list_all (\<lambda>r. knownStatus (status r)) rs"
  shows "(worstStatus rs = ''FAILURE'' \<or> worstStatus rs = ''TIMEOUT'' \<or> worstStatus rs = ''REVOKED'')
       = (\<exists>r\<in>set rs. status r \<noteq> ''SUCCESS'')"
proof
  assume bad: "worstStatus rs = ''FAILURE'' \<or> worstStatus rs = ''TIMEOUT'' \<or> worstStatus rs = ''REVOKED''"
  then have ns: "worstStatus rs \<noteq> ''SUCCESS''" by (elim disjE) simp_all
  with worstStatus_SUCCESS_or_present[of rs]
  obtain r where r: "r \<in> set rs" "status r = worstStatus rs" by (elim disjE bexE) simp_all
  from ns have nr: "status r \<noteq> ''SUCCESS''" unfolding r(2) .
  show "\<exists>r\<in>set rs. status r \<noteq> ''SUCCESS''"
  proof (rule bexI[of _ r])
    show "status r \<noteq> ''SUCCESS''" by (rule nr)
    show "r \<in> set rs" by (rule r(1))
  qed
next
  assume "\<exists>r\<in>set rs. status r \<noteq> ''SUCCESS''"
  then obtain r where r: "r \<in> set rs" "status r \<noteq> ''SUCCESS''" by (rule bexE)
  from known r(1) have kr: "knownStatus (status r)" by (simp add: list_all_iff)
  from knownStatus_bad[OF kr] r(2)
  have "status r = ''FAILURE'' \<or> status r = ''TIMEOUT'' \<or> status r = ''REVOKED''" by simp
  then have "priority (status r) \<le> 2" by (rule bad_priority)
  with worstStatus_le_each[OF r(1)] have le: "priority (worstStatus rs) \<le> 2" by simp
  have ns: "worstStatus rs \<noteq> ''SUCCESS''"
  proof
    assume "worstStatus rs = ''SUCCESS''"
    with le have "priority ''SUCCESS'' \<le> 2" by simp
    then show False by (simp add: priority_values)
  qed
  with worstStatus_SUCCESS_or_present[of rs]
  obtain q where q: "q \<in> set rs" "status q = worstStatus rs" by (elim disjE bexE) simp_all
  from known q(1) have "knownStatus (status q)" by (simp add: list_all_iff)
  then have "knownStatus (worstStatus rs)" by (simp only: q(2))
  from knownStatus_bad[OF this] ns
  show "worstStatus rs = ''FAILURE'' \<or> worstStatus rs = ''TIMEOUT'' \<or> worstStatus rs = ''REVOKED''"
    by simp
qed

lemma filter_known_failed:
  assumes "list_all (\<lambda>r. knownStatus (status r)) rs"
  shows "filter (\<lambda>r. status r \<noteq> ''SUCCESS'' \<and> status r \<noteq> ''SUBMITTED'') rs
       = filter (\<lambda>r. status r \<noteq> ''SUCCESS'') rs"
  using assms by (induction rs) (auto simp: knownStatus_def)

lemma filter_toReport:
  "filter (\<lambda>r. status r \<noteq> ''SUCCESS'') (map (toReport W) rs)
     = map (toReport W) (filter (\<lambda>r. status r \<noteq> ''SUCCESS'') rs)"
  by (induction rs) (simp_all add: toReport_def)

lemma errorMessage_toReport: "errorMessage (error (toReport W r)) = errorMessage (error r)"
  by (cases "error r") (simp_all add: toReport_def errorMessage_def)

lemma hd_toReport_message:
  assumes "length rs = 1"
  shows "errorMessage (error (hd (map (toReport W) rs))) = errorMessage (error (hd rs))"
proof -
  from assms obtain r where "rs = [r]" by (cases rs) auto
  then show ?thesis by (simp add: errorMessage_toReport)
qed

section \<open>Properties of the orchestrator\<close>

lemma validatePhase_sound:
  assumes "validatePhase W opts failFast files results s = (results', s')"
  shows "\<exists>evs. events s' = events s @ evs \<and> list_all isValidated evs \<and>
           results' = results @ map entryOf (filter failedValidation evs) \<and>
           list_all (\<lambda>r. knownStatus (status r)) (map entryOf (filter failedValidation evs)) \<and>
           (\<not> failFast \<longrightarrow> map eventFile evs = files)"
  using assms
proof (induction files arbitrary: results s)
  case Nil
  then show ?case by simp
next
  case (Cons f rest)
  obtain x s1 where c: "traced (Validated f) (validateFile W opts f) s = (x, s1)"
    by (cases "traced (Validated f) (validateFile W opts f) s")
  from traced_validate[OF c]
  have ev1: "events s1 = events s @ [Validated f x]"
    and known: "\<forall>v. x = Returned v \<longrightarrow> knownStatus (status v)" by auto
  let ?e = "Validated f x"
  show ?case
  proof (cases "failedValidation ?e")
    case bad: True
    let ?results1 = "results @ [entryOf ?e]"
    have k1: "knownStatus (status (entryOf ?e))"
      using known by (cases x) (auto simp: knownStatus_def)
    show ?thesis
    proof (cases failFast)
      case True
      have "validatePhase W opts failFast (f # rest) results s = (?results1, s1)"
        using c bad True by (cases x) (auto simp: Let_def)
      with Cons.prems have "results' = ?results1" "s' = s1" by auto
      with ev1 bad k1 True show ?thesis
        by (intro exI[of _ "[?e]"]) simp
    next
      case False
      have "validatePhase W opts failFast (f # rest) results s =
            validatePhase W opts failFast rest ?results1 s1"
        using c bad False by (cases x) (auto simp: Let_def)
      with Cons.prems have "validatePhase W opts failFast rest ?results1 s1 = (results', s')"
        by simp
      from Cons.IH[OF this] obtain evs where evs:
        "events s' = events s1 @ evs" "list_all isValidated evs"
        "results' = ?results1 @ map entryOf (filter failedValidation evs)"
        "list_all (\<lambda>r. knownStatus (status r)) (map entryOf (filter failedValidation evs))"
        "\<not> failFast \<longrightarrow> map eventFile evs = rest" by blast
      with ev1 bad k1 show ?thesis
        by (intro exI[of _ "?e # evs"]) simp
    qed
  next
    case good: False
    then obtain v where v: "x = Returned v" "status v = ''SUCCESS''"
      by (cases x) auto
    have "validatePhase W opts failFast (f # rest) results s =
          validatePhase W opts failFast rest results s1"
      using c v by simp
    with Cons.prems have "validatePhase W opts failFast rest results s1 = (results', s')"
      by simp
    from Cons.IH[OF this] obtain evs where evs:
      "events s' = events s1 @ evs" "list_all isValidated evs"
      "results' = results @ map entryOf (filter failedValidation evs)"
      "list_all (\<lambda>r. knownStatus (status r)) (map entryOf (filter failedValidation evs))"
      "\<not> failFast \<longrightarrow> map eventFile evs = rest" by blast
    with ev1 good show ?thesis
      by (intro exI[of _ "?e # evs"]) simp
  qed
qed

lemma processLoop_sound:
  assumes "processLoop W opts failFast files results s = (results', s')"
  shows "\<exists>evs. events s' = events s @ evs \<and>
           (\<not> validateOnly opts \<and> \<not> validateBeforeExecute opts \<longrightarrow> list_all isExecuted evs) \<and>
           (validateOnly opts \<longrightarrow> list_all isValidated evs) \<and>
           (list_all (\<lambda>r. knownStatus (status r)) results \<longrightarrow>
            list_all (\<lambda>r. knownStatus (status r)) results')"
  using assms
proof (induction files arbitrary: results s)
  case Nil
  then show ?case by simp
next
  case (Cons f rest)
  obtain x s1 where c: "processSingleFile W opts f s = (x, s1)"
    by (cases "processSingleFile W opts f s")
  from processSingleFile_sound[OF c] obtain evs1 where evs1:
    "events s1 = events s @ evs1"
    "\<not> validateOnly opts \<and> \<not> validateBeforeExecute opts \<longrightarrow> list_all isExecuted evs1"
    "validateOnly opts \<longrightarrow> list_all isValidated evs1"
    and known: "\<forall>v. x = Returned v \<longrightarrow> knownStatus (status v)" by blast
  define entry where "entry = (case x of Returned fileResult \<Rightarrow> fileResult
     | Thrown m \<Rightarrow> \<lparr>taskId = None, status = ''FAILURE'', result = JObj [], error = Some m,
         file_path = f\<rparr>)"
  have k1: "knownStatus (status entry)"
    using known by (cases x) (auto simp: entry_def knownStatus_def)
  have "processLoop W opts failFast (f # rest) results s = (results @ [entry], s1) \<or>
        processLoop W opts failFast (f # rest) results s =
          processLoop W opts failFast rest (results @ [entry]) s1"
  proof (cases x)
    case (Thrown m)
    with c show ?thesis by (cases failFast) (simp_all add: entry_def Let_def)
  next
    case (Returned fileResult)
    with c show ?thesis
      by (cases "(case error fileResult of None \<Rightarrow> False | Some e \<Rightarrow> e \<noteq> []) \<and> failFast")
         (simp_all add: entry_def Let_def)
  qed
  then consider (stop) "processLoop W opts failFast (f # rest) results s = (results @ [entry], s1)"
    | (go) "processLoop W opts failFast (f # rest) results s =
            processLoop W opts failFast rest (results @ [entry]) s1"
    by blast
  then show ?case
  proof cases
    case stop
    with Cons.prems have "results' = results @ [entry]" "s' = s1" by auto
    with evs1 k1 show ?thesis by (intro exI[of _ evs1]) simp
  next
    case go
    with Cons.prems have "processLoop W opts failFast rest (results @ [entry]) s1 = (results', s')"
      by simp
    from Cons.IH[OF this] obtain evs where evs:
      "events s' = events s1 @ evs"
      "\<not> validateOnly opts \<and> \<not> validateBeforeExecute opts \<longrightarrow> list_all isExecuted evs"
      "validateOnly opts \<longrightarrow> list_all isValidated evs"
      "list_all (\<lambda>r. knownStatus (status r)) (results @ [entry]) \<longrightarrow>
         list_all (\<lambda>r. knownStatus (status r)) results'" by blast
    with evs1 k1 show ?thesis by (intro exI[of _ "evs1 @ evs"]) simp
  qed
qed

lemma failedValidation_entry:
  "failedValidation e \<Longrightarrow> status (entryOf e) \<noteq> ''SUCCESS''"
  by (cases e rule: failedValidation.cases) simp_all

lemma filter_failed_entries:
  "filter (\<lambda>r. status r \<noteq> ''SUCCESS'') (map entryOf (filter failedValidation evs))
     = map entryOf (filter failedValidation evs)"
  by (induction evs) (simp_all add: failedValidation_entry)

lemma failedEvent_entry:
  "failedEvent e \<Longrightarrow> status (entryOf e) \<noteq> ''SUCCESS''"
  by (cases e rule: failedEvent.cases) simp_all

lemma filter_failedEvent_entries:
  "filter (\<lambda>r. status r \<noteq> ''SUCCESS'') (map entryOf (filter failedEvent evs))
     = map entryOf (filter failedEvent evs)"
  by (induction evs) (simp_all add: failedEvent_entry)

lemma newEvents_append: "events s' = events s @ evs \<Longrightarrow> newEvents s s' = evs"
  by (simp add: newEvents_def)

lemma isExecuted_not_failed: "list_all isExecuted evs \<Longrightarrow> filter failedValidation evs = []"
proof (induction evs)
  case Nil
  show ?case by simp
next
  case (Cons e evs)
  then show ?case by (cases e) simp_all
qed

lemma isValidated_not_executed: "list_all isValidated evs \<Longrightarrow> filter isExecuted evs = []"
proof (induction evs)
  case Nil
  show ?case by simp
next
  case (Cons e evs)
  then show ?case by (cases e) simp_all
qed

lemma isExecuted_not_validated: "list_all isExecuted evs \<Longrightarrow> filter isValidated evs = []"
proof (induction evs)
  case Nil
  show ?case by simp
next
  case (Cons e evs)
  then show ?case by (cases e) simp_all
qed

lemma isValidated_filter: "list_all isValidated evs \<Longrightarrow> filter isValidated evs = evs"
  by (induction evs) simp_all

lemma isValidated_failed: "list_all isValidated evs \<Longrightarrow> filter failedEvent evs = filter failedValidation evs"
proof (induction evs)
  case Nil
  show ?case by simp
next
  case (Cons e evs)
  then show ?case by (cases e rule: failedValidation.cases) simp_all
qed

lemma failedValidation_failedEvent: "failedValidation e \<Longrightarrow> failedEvent e"
  by (cases e rule: failedValidation.cases) simp_all

text \<open>
  The entry pushed for a file and the events of its operations: the reported entry is not
  \<open>SUCCESS\<close> exactly when one of the operations failed, and then it reports that operation;
  when only validating, it reports the validation.
\<close>

lemma toReport_status: "status (toReport W r) = status r"
  by (simp add: toReport_def)

lemma executeStep_entry:
  assumes "executeStep W opts f s = (x, s')"
  shows "\<exists>ev. events s' = events s @ [ev] \<and>
           toReport W (entryOf ev) = toReport W (pushed f x) \<and>
           failedEvent ev = (status (pushed f x) \<noteq> ''SUCCESS'')"
proof -
  obtain r s1 where c: "traced (Executed f) (executeFile W opts f) s = (r, s1)"
    by (cases "traced (Executed f) (executeFile W opts f) s")
  from traced_execute[OF c] have ev: "events s1 = events s @ [Executed f r]" by simp
  show ?thesis
  proof (cases r)
    case (Thrown m)
    with c assms have "x = Thrown m" "s' = s1" by (simp_all add: executeStep_def)
    with ev Thrown show ?thesis
      by (intro exI[of _ "Executed f r"]) (simp add: pushed_def)
  next
    case (Returned e)
    with c assms have s': "s' = s1"
      and x: "x = Returned \<lparr>taskId = None, status = status e, result = result e,
          error = (if (case error e of None \<Rightarrow> False | Some m \<Rightarrow> m \<noteq> []) then error e else None),
          file_path = f\<rparr>"
      by (simp_all add: executeStep_def split: if_splits)
    have "toReport W (entryOf (Executed f r)) = toReport W (pushed f x)"
      unfolding x Returned by (cases "error e") (simp_all add: pushed_def toReport_def)
    moreover have "failedEvent (Executed f r) = (status (pushed f x) \<noteq> ''SUCCESS'')"
      unfolding x Returned by (simp add: pushed_def)
    ultimately show ?thesis using ev s' by (intro exI[of _ "Executed f r"]) simp
  qed
qed

lemma processSingleFile_entry:
  assumes "processSingleFile W opts f s = (x, s')"
  shows "\<exists>evs. events s' = events s @ evs \<and>
           map (\<lambda>ev. toReport W (entryOf ev)) (filter failedEvent evs)
             = filter (\<lambda>r. status r \<noteq> ''SUCCESS'') [toReport W (pushed f x)] \<and>
           (validateOnly opts \<longrightarrow>
              map (\<lambda>ev. toReport W (entryOf ev)) evs = [toReport W (pushed f x)])"
proof (cases "validateOnly opts \<or> validateBeforeExecute opts")
  case False
  then have ex: "executeStep W opts f s = (x, s')" using assms by (simp add: processSingleFile_def)
  from executeStep_entry[OF ex] obtain ev where ev: "events s' = events s @ [ev]"
    "toReport W (entryOf ev) = toReport W (pushed f x)"
    "failedEvent ev = (status (pushed f x) \<noteq> ''SUCCESS'')" by auto
  with False show ?thesis
    by (intro exI[of _ "[ev]"]) (simp add: toReport_status)
next
  case True
  obtain r s1 where c: "traced (Validated f) (validateFile W opts f) s = (r, s1)"
    by (cases "traced (Validated f) (validateFile W opts f) s")
  from traced_validate[OF c] have ev1: "events s1 = events s @ [Validated f r]" by simp
  show ?thesis
  proof (cases r)
    case (Thrown m)
    with c assms True have "x = Thrown m" "s' = s1" by (simp_all add: processSingleFile_def)
    with ev1 Thrown show ?thesis
      by (intro exI[of _ "[Validated f r]"]) (simp add: pushed_def toReport_status)
  next
    case (Returned v)
    show ?thesis
    proof (cases "status v \<noteq> ''SUCCESS''")
      case bad: True
      with c assms True Returned have s': "s' = s1"
        and x: "x = Returned \<lparr>taskId = None, status = status v, result = result v,
            error = error v, file_path = f\<rparr>"
        by (simp_all add: processSingleFile_def)
      have "toReport W (entryOf (Validated f r)) = toReport W (pushed f x)"
        unfolding x Returned by (simp add: pushed_def toReport_def)
      with ev1 s' bad show ?thesis
        unfolding x Returned
        by (intro exI[of _ "[Validated f (Returned v)]"]) (simp add: pushed_def toReport_status)
    next
      case good: False
      show ?thesis
      proof (cases "validateOnly opts")
        case only: True
        with c assms Returned good have s': "s' = s1"
          and x: "x = Returned \<lparr>taskId = None, status = ''SUCCESS'', result = result v,
              error = None, file_path = f\<rparr>"
          by (simp_all add: processSingleFile_def)
        from c Returned good have "error v = None"
          by (intro traced_validate_success[of f W opts s v s1]) simp_all
        with good have "toReport W (entryOf (Validated f (Returned v))) = toReport W (pushed f x)"
          unfolding x by (simp add: pushed_def toReport_def)
        with ev1 s' good show ?thesis
          unfolding Returned
          by (intro exI[of _ "[Validated f (Returned v)]"])
             (simp add: toReport_status x pushed_def)
      next
        case both: False
        with c assms True Returned good have ex: "executeStep W opts f s1 = (x, s')"
          by (simp add: processSingleFile_def)
        from executeStep_entry[OF ex] obtain ev where ev: "events s' = events s1 @ [ev]"
          "toReport W (entryOf ev) = toReport W (pushed f x)"
          "failedEvent ev = (status (pushed f x) \<noteq> ''SUCCESS'')" by auto
        with ev1 good both show ?thesis
          unfolding Returned
          by (intro exI[of _ "[Validated f (Returned v), ev]"]) (simp add: toReport_status)
      qed
    qed
  qed
qed

lemma processLoop_step:
  assumes "processSingleFile W opts f s = (x, s1)"
  shows "processLoop W opts failFast (f # rest) results s = (results @ [pushed f x], s1) \<or>
         processLoop W opts failFast (f # rest) results s =
           processLoop W opts failFast rest (results @ [pushed f x]) s1"
proof (cases x)
  case (Thrown m)
  with assms show ?thesis by (cases failFast) (simp_all add: pushed_def Let_def)
next
  case (Returned fileResult)
  with assms show ?thesis
    by (cases "(case error fileResult of None \<Rightarrow> False | Some e \<Rightarrow> e \<noteq> []) \<and> failFast")
       (simp_all add: pushed_def Let_def)
qed

lemma processLoop_entries:
  assumes "processLoop W opts failFast files results s = (results', s')"
  shows "\<exists>evs. events s' = events s @ evs \<and>
           filter (\<lambda>r. status r \<noteq> ''SUCCESS'') (map (toReport W) results')
             = filter (\<lambda>r. status r \<noteq> ''SUCCESS'') (map (toReport W) results) @
               map (\<lambda>ev. toReport W (entryOf ev)) (filter failedEvent evs) \<and>
           (validateOnly opts \<longrightarrow>
              map (toReport W) results'
                = map (toReport W) results @ map (\<lambda>ev. toReport W (entryOf ev)) evs)"
  using assms
proof (induction files arbitrary: results s)
  case Nil
  then show ?case by simp
next
  case (Cons f rest)
  obtain x s1 where c: "processSingleFile W opts f s = (x, s1)"
    by (cases "processSingleFile W opts f s")
  from processSingleFile_entry[OF c] obtain evs1 where evs1:
    "events s1 = events s @ evs1"
    "map (\<lambda>ev. toReport W (entryOf ev)) (filter failedEvent evs1)
       = filter (\<lambda>r. status r \<noteq> ''SUCCESS'') [toReport W (pushed f x)]"
    "validateOnly opts \<longrightarrow>
       map (\<lambda>ev. toReport W (entryOf ev)) evs1 = [toReport W (pushed f x)]" by auto
  from processLoop_step[OF c, of failFast rest results] show ?case
  proof
    assume "processLoop W opts failFast (f # rest) results s = (results @ [pushed f x], s1)"
    with Cons.prems have "results' = results @ [pushed f x]" "s' = s1" by simp_all
    with evs1 show ?thesis by (intro exI[of _ evs1]) simp
  next
    assume "processLoop W opts failFast (f # rest) results s =
        processLoop W opts failFast rest (results @ [pushed f x]) s1"
    with Cons.prems have "processLoop W opts failFast rest (results @ [pushed f x]) s1 = (results', s')"
      by simp
    from Cons.IH[OF this] obtain evs where evs:
      "events s' = events s1 @ evs"
      "filter (\<lambda>r. status r \<noteq> ''SUCCESS'') (map (toReport W) results')
         = filter (\<lambda>r. status r \<noteq> ''SUCCESS'') (map (toReport W) (results @ [pushed f x])) @
           map (\<lambda>ev. toReport W (entryOf ev)) (filter failedEvent evs)"
      "validateOnly opts \<longrightarrow>
         map (toReport W) results'
           = map (toReport W) (results @ [pushed f x]) @ map (\<lambda>ev. toReport W (entryOf ev)) evs"
      by auto
    with evs1 show ?thesis by (intro exI[of _ "evs1 @ evs"]) simp
  qed
qed

text \<open>
  The two ways the \<open>validate_first\<close> flow can go: some validation failed and the run ends
  after phase 1, or none failed and phase 2 executes.
\<close>

lemma validate_first_flow:
  assumes flow: "validateBeforeExecute opts" "\<not> validateOnly opts"
    and run: "orchestrate W opts ''validate_first'' failFast files s = (out, s')"
  shows "(\<exists>evs. newEvents s s' = evs \<and> list_all isValidated evs \<and>
            filter failedValidation evs \<noteq> [] \<and>
            list_all (\<lambda>r. knownStatus (status r)) (map entryOf (filter failedValidation evs)) \<and>
            (\<not> failFast \<longrightarrow> map eventFile evs = files) \<and>
            out = \<lparr>statusOutput = ''FAILURE'',
                   resultOutput = map (toReport W) (map entryOf (filter failedValidation evs)),
                   thrownError = Some
                     (if length (filter failedValidation evs) = 1
                      then errorMessage (error (hd (map entryOf (filter failedValidation evs))))
                      else failedValidationSummary (length (filter failedValidation evs))
                             (length files))\<rparr>)
       \<or> (\<exists>evs1 evs2 results2. newEvents s s' = evs1 @ evs2 \<and> list_all isValidated evs1 \<and>
            filter failedValidation evs1 = [] \<and> list_all isExecuted evs2 \<and>
            list_all (\<lambda>r. knownStatus (status r)) results2 \<and> out = finish W results2 \<and>
            filter (\<lambda>r. status r \<noteq> ''SUCCESS'') (map (toReport W) results2)
              = map (\<lambda>ev. toReport W (entryOf ev)) (filter failedEvent evs2))"
proof -
  obtain results1 s1 where vp: "validatePhase W opts failFast files [] s = (results1, s1)"
    by (cases "validatePhase W opts failFast files [] s")
  from validatePhase_sound[OF vp] obtain evs where evs:
    "events s1 = events s @ evs" "list_all isValidated evs"
    "results1 = map entryOf (filter failedValidation evs)"
    "list_all (\<lambda>r. knownStatus (status r)) (map entryOf (filter failedValidation evs))"
    "\<not> failFast \<longrightarrow> map eventFile evs = files" by auto
  have flt: "filter (\<lambda>r. status r \<noteq> ''SUCCESS'') results1 = results1"
    unfolding evs(3) by (rule filter_failed_entries)
  show ?thesis
  proof (cases "filter failedValidation evs = []")
    case False
    then have ne: "length results1 > 0" using evs(3) by simp
    have len: "length results1 = length (filter failedValidation evs)" using evs(3) by simp
    have "orchestrate W opts ''validate_first'' failFast files s =
      (\<lparr>statusOutput = ''FAILURE'', resultOutput = map (toReport W) results1,
        thrownError = Some (if length results1 = 1 then errorMessage (error (hd results1))
           else failedValidationSummary (length results1) (length files))\<rparr>, s1)"
      using flow vp ne by (simp add: orchestrate_def flt Let_def)
    with run have out: "out = \<lparr>statusOutput = ''FAILURE'', resultOutput = map (toReport W) results1,
        thrownError = Some (if length results1 = 1 then errorMessage (error (hd results1))
           else failedValidationSummary (length results1) (length files))\<rparr>" and s': "s' = s1"
      by simp_all
    have "newEvents s s' = evs" using evs(1) s' by (simp add: newEvents_append)
    with False evs(2,4,5) out len show ?thesis
      unfolding evs(3) by (intro disjI1 exI[of _ evs]) simp
  next
    case True
    then have empty: "results1 = []" using evs(3) by simp
    let ?executeOptions = "opts\<lparr>validateBeforeExecute := False, validateOnly := False\<rparr>"
    obtain results2 s2 where pl: "processLoop W ?executeOptions failFast files [] s1 = (results2, s2)"
      by (cases "processLoop W ?executeOptions failFast files [] s1")
    from processLoop_sound[OF pl] obtain evs2 where evs2:
      "events s2 = events s1 @ evs2" "list_all isExecuted evs2"
      "list_all (\<lambda>r. knownStatus (status r)) results2" by auto
    from processLoop_entries[OF pl] evs2(1)
    have tie: "filter (\<lambda>r. status r \<noteq> ''SUCCESS'') (map (toReport W) results2)
        = map (\<lambda>ev. toReport W (entryOf ev)) (filter failedEvent evs2)" by auto
    have "orchestrate W opts ''validate_first'' failFast files s = (finish W results2, s2)"
      using flow vp pl empty by (simp add: orchestrate_def Let_def)
    with run have out: "out = finish W results2" and s': "s' = s2" by simp_all
    have "newEvents s s' = evs @ evs2" using evs(1) evs2(1) s' by (simp add: newEvents_append)
    with True evs(2) evs2(2,3) out tie show ?thesis
      by (intro disjI2 exI[of _ evs] exI[of _ evs2] exI[of _ results2]) simp
  qed
qed

text \<open>
  A run that does not take the \<open>validate_first\<close> flow is the loop over \<open>processSingleFile\<close>
  followed by the aggregation.
\<close>

lemma per_file_flow:
  assumes flow: "\<not> (executionStrategy = ''validate_first'' \<and> \<not> validateOnly opts \<and>
      validateBeforeExecute opts)"
    and run: "orchestrate W opts executionStrategy failFast files s = (out, s')"
  shows "\<exists>results. out = finish W results \<and>
           list_all (\<lambda>r. knownStatus (status r)) results \<and>
           (\<not> validateOnly opts \<and> \<not> validateBeforeExecute opts \<longrightarrow>
              list_all isExecuted (newEvents s s')) \<and>
           (validateOnly opts \<longrightarrow> list_all isValidated (newEvents s s')) \<and>
           filter (\<lambda>r. status r \<noteq> ''SUCCESS'') (map (toReport W) results)
             = map (\<lambda>ev. toReport W (entryOf ev)) (filter failedEvent (newEvents s s')) \<and>
           (validateOnly opts \<longrightarrow>
              map (toReport W) results = map (\<lambda>ev. toReport W (entryOf ev)) (newEvents s s'))"
proof -
  obtain results s1 where pl: "processLoop W opts failFast files [] s = (results, s1)"
    by (cases "processLoop W opts failFast files [] s")
  from flow pl run have out: "out = finish W results" and s': "s' = s1"
    by (auto simp: orchestrate_def)
  from processLoop_sound[OF pl] obtain evs where evs:
    "events s1 = events s @ evs"
    "\<not> validateOnly opts \<and> \<not> validateBeforeExecute opts \<longrightarrow> list_all isExecuted evs"
    "validateOnly opts \<longrightarrow> list_all isValidated evs"
    "list_all (\<lambda>r. knownStatus (status r)) results" by auto
  have new: "newEvents s s' = evs" using evs(1) s' by (simp add: newEvents_append)
  from processLoop_entries[OF pl] evs(1)
  have tie: "filter (\<lambda>r. status r \<noteq> ''SUCCESS'') (map (toReport W) results)
        = map (\<lambda>ev. toReport W (entryOf ev)) (filter failedEvent evs)"
    and all: "validateOnly opts \<longrightarrow>
        map (toReport W) results = map (\<lambda>ev. toReport W (entryOf ev)) evs" by auto
  from out evs(2-4) tie all show ?thesis
    unfolding new by (intro exI[of _ results]) simp
qed

text \<open>
  Claim C6, as amended. Under the \<open>validate_first\<close> strategy, if any file fails validation
  then no file is executed and the run ends with an error and an aggregate status of
  \<open>FAILURE\<close>, \<open>TIMEOUT\<close> or \<open>REVOKED\<close>; the status is \<open>FAILURE\<close> whenever
  \<open>validate_before_execute\<close> is on and \<open>validate_only\<close> is off, and then, without fail-fast,
  every file is validated exactly once, in order, so that for three files of which the second
  fails there are exactly three validate attempts and no execute attempt.
\<close>

theorem validate_first_failure_executes_nothing:
  assumes "orchestrate W opts ''validate_first'' failFast files s = (out, s')"
    and "\<exists>ev\<in>set (newEvents s s'). failedValidation ev"
  shows "filter isExecuted (newEvents s s') = [] \<and> thrownError out \<noteq> None \<and>
         (statusOutput out = ''FAILURE'' \<or> statusOutput out = ''TIMEOUT'' \<or>
          statusOutput out = ''REVOKED'') \<and>
         (validateBeforeExecute opts \<and> \<not> validateOnly opts \<longrightarrow>
            statusOutput out = ''FAILURE'' \<and>
            (\<not> failFast \<longrightarrow> map eventFile (filter isValidated (newEvents s s')) = files))"
proof (cases "validateBeforeExecute opts \<and> \<not> validateOnly opts")
  case True
  then have flow: "validateBeforeExecute opts" "\<not> validateOnly opts" by simp_all
  from assms(2) have some: "filter failedValidation (newEvents s s') \<noteq> []"
    by (simp add: filter_empty_conv)
  from validate_first_flow[OF flow assms(1)]
  consider (failed) evs where "newEvents s s' = evs" "list_all isValidated evs"
      "\<not> failFast \<longrightarrow> map eventFile evs = files"
      "statusOutput out = ''FAILURE''" "thrownError out \<noteq> None"
    | (passed) evs1 evs2 where "newEvents s s' = evs1 @ evs2"
      "filter failedValidation evs1 = []" "list_all isExecuted evs2"
    by fastforce
  then show ?thesis
  proof cases
    case failed
    then show ?thesis
      by (simp add: isValidated_not_executed isValidated_filter)
  next
    case passed
    with some isExecuted_not_failed[OF passed(3)] show ?thesis by simp
  qed
next
  case False
  then have flow: "\<not> (''validate_first'' = ''validate_first'' \<and> \<not> validateOnly opts \<and>
      validateBeforeExecute opts)" by auto
  from per_file_flow[OF flow assms(1)] obtain results where res:
    "out = finish W results" "list_all (\<lambda>r. knownStatus (status r)) results"
    "\<not> validateOnly opts \<and> \<not> validateBeforeExecute opts \<longrightarrow>
       list_all isExecuted (newEvents s s')"
    "validateOnly opts \<longrightarrow> list_all isValidated (newEvents s s')"
    "filter (\<lambda>r. status r \<noteq> ''SUCCESS'') (map (toReport W) results)
       = map (\<lambda>ev. toReport W (entryOf ev)) (filter failedEvent (newEvents s s'))"
    by auto
  from assms(2) obtain ev where ev: "ev \<in> set (newEvents s s')" "failedValidation ev"
    by (rule bexE)
  then have someV: "filter failedValidation (newEvents s s') \<noteq> []"
    by (auto simp: filter_empty_conv)
  have only: "validateOnly opts"
  proof (rule ccontr)
    assume "\<not> validateOnly opts"
    with False res(3) have "list_all isExecuted (newEvents s s')" by simp
    from isExecuted_not_failed[OF this] someV show False by simp
  qed
  with res(4) have noexec: "filter isExecuted (newEvents s s') = []"
    by (simp add: isValidated_not_executed)
  from ev(2) have "failedEvent ev" by (rule failedValidation_failedEvent)
  with ev(1) have "filter failedEvent (newEvents s s') \<noteq> []"
    by (auto simp: filter_empty_conv)
  then have ne: "map (\<lambda>ev. toReport W (entryOf ev)) (filter failedEvent (newEvents s s')) \<noteq> []"
    by simp
  have eq: "map (toReport W) (filter (\<lambda>r. status r \<noteq> ''SUCCESS'') results)
      = map (\<lambda>ev. toReport W (entryOf ev)) (filter failedEvent (newEvents s s'))"
    using res(5) by (simp only: filter_toReport)
  have "map (toReport W) (filter (\<lambda>r. status r \<noteq> ''SUCCESS'') results) \<noteq> []"
    unfolding eq by (rule ne)
  then have "filter (\<lambda>r. status r \<noteq> ''SUCCESS'') results \<noteq> []"
    by simp
  then have "\<exists>r\<in>set results. status r \<noteq> ''SUCCESS''"
    by (simp add: filter_empty_conv)
  with worstStatus_bad_iff[OF res(2)]
  have bad: "worstStatus results = ''FAILURE'' \<or> worstStatus results = ''TIMEOUT'' \<or>
      worstStatus results = ''REVOKED''" by simp
  have st: "statusOutput out = worstStatus results"
    unfolding res(1) by (simp add: finish_def Let_def)
  have err: "thrownError out \<noteq> None"
    unfolding res(1) using bad by (simp add: finish_def Let_def)
  from noexec err bad only show ?thesis unfolding st by simp
qed

section \<open>Example runs\<close>

lemmas run_defs = orchestrate_def traced_def validateFile_def executeFile_def submit_def fetch_def
  readTaskId_def pollTask_def pollLoop.simps pollAttempt_def scriptedWorld_def worldOf_def
  scripted_def okJson_def taskReply_def validReply_def invalidReply_def executedReply_def
  pollReply_def exampleOptions_def start_def buildUrl_def getFileFormat_def toLowerCase_def
  yamlExt_def fileContent_def orEmptyObject_def toReport_def errorMessage_def lastSegment_def
  Let_def pollInterval_def processSingleFile_def executeStep_def finish_def
  trim_defs

text \<open>
  Three files under \<open>validate_first\<close> without fail-fast, the second of which is not valid.
\<close>

lemma run_three_files_second_invalid:
  "orchestrate
     (scriptedWorld [taskReply ''v-01'', validReply, taskReply ''v-02'', invalidReply,
                     taskReply ''v-03'', validReply])
     exampleOptions ''validate_first'' False
     [''/w/01_queues.yaml'', ''/w/02_flows.yaml'', ''/w/03_webchat.yaml''] start
   = (\<lparr>statusOutput = ''FAILURE'',
       resultOutput =
         [\<lparr>taskId = None, status = ''FAILURE'', result = JObj [(''is_valid'', JBool False)],
           error = Some ''Changeset validation failed. See validation errors above.'',
           file_path = ''02_flows.yaml''\<rparr>],
       thrownError = Some ''Changeset validation failed. See validation errors above.''\<rparr>,
      \<lparr>fetched = 6, warnings = [],
       events =
         [Validated ''/w/01_queues.yaml''
            (Returned \<lparr>taskId = None, status = ''SUCCESS'',
               result = JObj [(''is_valid'', JBool True)], error = None\<rparr>),
          Validated ''/w/02_flows.yaml''
            (Returned \<lparr>taskId = None, status = ''FAILURE'',
               result = JObj [(''is_valid'', JBool False)],
               error = Some ''Changeset validation failed. See validation errors above.''\<rparr>),
          Validated ''/w/03_webchat.yaml''
            (Returned \<lparr>taskId = None, status = ''SUCCESS'',
               result = JObj [(''is_valid'', JBool True)], error = None\<rparr>)]\<rparr>)"
  by (simp add: run_defs)

text \<open>Two files under \<open>validate_first\<close>, the first valid, the second not.\<close>

lemma run_two_files_second_invalid:
  "orchestrate
     (scriptedWorld [taskReply ''v-01'', validReply, taskReply ''v-02'', invalidReply])
     exampleOptions ''validate_first'' False [''/w/01_queues.yaml'', ''/w/02_flows.yaml''] start
   = (\<lparr>statusOutput = ''FAILURE'',
       resultOutput =
         [\<lparr>taskId = None, status = ''FAILURE'', result = JObj [(''is_valid'', JBool False)],
           error = Some ''Changeset validation failed. See validation errors above.'',
           file_path = ''02_flows.yaml''\<rparr>],
       thrownError = Some ''Changeset validation failed. See validation errors above.''\<rparr>,
      \<lparr>fetched = 4, warnings = [],
       events =
         [Validated ''/w/01_queues.yaml''
            (Returned \<lparr>taskId = None, status = ''SUCCESS'',
               result = JObj [(''is_valid'', JBool True)], error = None\<rparr>),
          Validated ''/w/02_flows.yaml''
            (Returned \<lparr>taskId = None, status = ''FAILURE'',
               result = JObj [(''is_valid'', JBool False)],
               error = Some ''Changeset validation failed. See validation errors above.''\<rparr>)]\<rparr>)"
  by (simp add: run_defs)

text \<open>
  Two files with strategy \<open>validate_first\<close> while \<open>validate_before_execute\<close> is off: both
  are executed, neither is validated.
\<close>

lemma run_two_files_no_validation:
  "orchestrate
     (scriptedWorld [taskReply ''e-01'', executedReply, taskReply ''e-02'', executedReply])
     (exampleOptions\<lparr>validateBeforeExecute := False\<rparr>) ''validate_first'' False
     [''/w/01_queues.yaml'', ''/w/02_flows.yaml''] start
   = (\<lparr>statusOutput = ''SUCCESS'',
       resultOutput =
         [\<lparr>taskId = None, status = ''SUCCESS'', result = JObj [(''run_id'', JNum 42)],
           error = None, file_path = ''01_queues.yaml''\<rparr>,
          \<lparr>taskId = None, status = ''SUCCESS'', result = JObj [(''run_id'', JNum 42)],
           error = None, file_path = ''02_flows.yaml''\<rparr>],
       thrownError = None\<rparr>,
      \<lparr>fetched = 4, warnings = [],
       events =
         [Executed ''/w/01_queues.yaml''
            (Returned \<lparr>taskId = None, status = ''SUCCESS'',
               result = JObj [(''run_id'', JNum 42)], error = None\<rparr>),
          Executed ''/w/02_flows.yaml''
            (Returned \<lparr>taskId = None, status = ''SUCCESS'',
               result = JObj [(''run_id'', JNum 42)], error = None\<rparr>)]\<rparr>)"
  by (simp add: run_defs worstStatus_def worstStep_def priority_def STATUS_PRIORITY_def)

text \<open>
  Two files with strategy \<open>validate_first\<close> while \<open>validate_only\<close> is on, the first valid,
  the second not: both are validated, none is executed, and both are reported.
\<close>

lemma run_two_files_validate_only:
  "orchestrate
     (scriptedWorld [taskReply ''v-01'', validReply, taskReply ''v-02'', invalidReply])
     (exampleOptions\<lparr>validateOnly := True\<rparr>) ''validate_first'' False
     [''/w/01_queues.yaml'', ''/w/02_flows.yaml''] start
   = (\<lparr>statusOutput = ''FAILURE'',
       resultOutput =
         [\<lparr>taskId = None, status = ''SUCCESS'', result = JObj [(''is_valid'', JBool True)],
           error = None, file_path = ''01_queues.yaml''\<rparr>,
          \<lparr>taskId = None, status = ''FAILURE'', result = JObj [(''is_valid'', JBool False)],
           error = Some ''Changeset validation failed. See validation errors above.'',
           file_path = ''02_flows.yaml''\<rparr>],
       thrownError = Some ''Changeset validation failed. See validation errors above.''\<rparr>,
      \<lparr>fetched = 4, warnings = [],
       events =
         [Validated ''/w/01_queues.yaml''
            (Returned \<lparr>taskId = None, status = ''SUCCESS'',
               result = JObj [(''is_valid'', JBool True)], error = None\<rparr>),
          Validated ''/w/02_flows.yaml''
            (Returned \<lparr>taskId = None, status = ''FAILURE'',
               result = JObj [(''is_valid'', JBool False)],
               error = Some ''Changeset validation failed. See validation errors above.''\<rparr>)]\<rparr>)"
  by (simp add: run_defs worstStatus_def worstStep_def priority_def STATUS_PRIORITY_def)

text \<open>
  A whole run with the default strategy over three files matched by a glob: the first is
  validated and executed, the second is not valid, the execution of the third fails.
\<close>

lemma preflight_three_files:
  "preflight
     (examplePlatform [(''api_key'', ''key''), (''base_url'', ''https://test.inprod.io/''),
        (''changeset_file'', ''changesets/*.yaml'')])
     (exampleFiles [''changesets/02_flows.yaml'', ''changesets/01_queues.yaml'',
        ''changesets/03_webchat.yaml''])
   = Returned (exampleOptions, ''per_file'', False,
       [''/w/changesets/01_queues.yaml'', ''/w/changesets/02_flows.yaml'',
        ''/w/changesets/03_webchat.yaml''])"
  by (simp add: preflight_def examplePlatform_def inputOf_def requiredInputOf_def noEnv_def
      notANumber_def anyUrl_def orElse_def dropTrailingSlash_def parseVariables_def
      exampleOptions_def resolveFiles_def isGlobPattern_def exampleFiles_def globMatches_def
      underWorkspace_def lastPart_def sortWith_def byBasename_def forwardSlashes_def
      trim_defs Let_def)

lemma run_three_files_two_failed:
  "orchestrate
     (scriptedWorld [taskReply ''v-01'', validReply, taskReply ''e-01'', executedReply,
                     taskReply ''v-02'', invalidReply,
                     taskReply ''v-03'', validReply, taskReply ''e-03'', failedReply ''boom''])
     exampleOptions ''per_file'' False
     [''/w/changesets/01_queues.yaml'', ''/w/changesets/02_flows.yaml'',
      ''/w/changesets/03_webchat.yaml''] start
   = (\<lparr>statusOutput = ''FAILURE'',
       resultOutput =
         [\<lparr>taskId = None, status = ''SUCCESS'', result = JObj [(''run_id'', JNum 42)],
           error = None, file_path = ''01_queues.yaml''\<rparr>,
          \<lparr>taskId = None, status = ''FAILURE'', result = JObj [(''is_valid'', JBool False)],
           error = Some ''Changeset validation failed. See validation errors above.'',
           file_path = ''02_flows.yaml''\<rparr>,
          \<lparr>taskId = None, status = ''FAILURE'', result = JObj [],
           error = Some ''Changeset execution failed: boom'', file_path = ''03_webchat.yaml''\<rparr>],
       thrownError = Some (failedSummary 2 3)\<rparr>,
      \<lparr>fetched = 10, warnings = [],
       events =
         [Validated ''/w/changesets/01_queues.yaml''
            (Returned \<lparr>taskId = None, status = ''SUCCESS'',
               result = JObj [(''is_valid'', JBool True)], error = None\<rparr>),
          Executed ''/w/changesets/01_queues.yaml''
            (Returned \<lparr>taskId = None, status = ''SUCCESS'',
               result = JObj [(''run_id'', JNum 42)], error = None\<rparr>),
          Validated ''/w/changesets/02_flows.yaml''
            (Returned \<lparr>taskId = None, status = ''FAILURE'',
               result = JObj [(''is_valid'', JBool False)],
               error = Some ''Changeset validation failed. See validation errors above.''\<rparr>),
          Validated ''/w/changesets/03_webchat.yaml''
            (Returned \<lparr>taskId = None, status = ''SUCCESS'',
               result = JObj [(''is_valid'', JBool True)], error = None\<rparr>),
          Executed ''/w/changesets/03_webchat.yaml''
            (Returned \<lparr>taskId = None, status = ''FAILURE'', result = JObj [],
               error = Some ''Changeset execution failed: boom''\<rparr>)]\<rparr>)"
  by (simp add: run_defs failedReply_def worstStatus_def worstStep_def priority_def
      STATUS_PRIORITY_def numeral_2_eq_2 numeral_3_eq_3)

theorem validate_first_failure_executes_nothing_witness:
  "statusOutput (fst (orchestrate
      (scriptedWorld [taskReply ''v-01'', validReply, taskReply ''v-02'', invalidReply,
                      taskReply ''v-03'', validReply])
      exampleOptions ''validate_first'' False
      [''/w/01_queues.yaml'', ''/w/02_flows.yaml'', ''/w/03_webchat.yaml''] start)) = ''FAILURE'' \<and>
   length (filter isValidated (newEvents start (snd (orchestrate
      (scriptedWorld [taskReply ''v-01'', validReply, taskReply ''v-02'', invalidReply,
                      taskReply ''v-03'', validReply])
      exampleOptions ''validate_first'' False
      [''/w/01_queues.yaml'', ''/w/02_flows.yaml'', ''/w/03_webchat.yaml''] start)))) = 3 \<and>
   length (filter isExecuted (newEvents start (snd (orchestrate
      (scriptedWorld [taskReply ''v-01'', validReply, taskReply ''v-02'', invalidReply,
                      taskReply ''v-03'', validReply])
      exampleOptions ''validate_first'' False
      [''/w/01_queues.yaml'', ''/w/02_flows.yaml'', ''/w/03_webchat.yaml''] start)))) = 0"
proof -
  let ?W = "scriptedWorld [taskReply ''v-01'', validReply, taskReply ''v-02'', invalidReply,
      taskReply ''v-03'', validReply]"
  let ?files = "[''/w/01_queues.yaml'', ''/w/02_flows.yaml'', ''/w/03_webchat.yaml'']"
  obtain out s' where run: "orchestrate ?W exampleOptions ''validate_first'' False ?files start
      = (out, s')"
    by (cases "orchestrate ?W exampleOptions ''validate_first'' False ?files start")
  have evs: "newEvents start s' =
      [Validated ''/w/01_queues.yaml''
         (Returned \<lparr>taskId = None, status = ''SUCCESS'',
            result = JObj [(''is_valid'', JBool True)], error = None\<rparr>),
       Validated ''/w/02_flows.yaml''
         (Returned \<lparr>taskId = None, status = ''FAILURE'',
            result = JObj [(''is_valid'', JBool False)],
            error = Some ''Changeset validation failed. See validation errors above.''\<rparr>),
       Validated ''/w/03_webchat.yaml''
         (Returned \<lparr>taskId = None, status = ''SUCCESS'',
            result = JObj [(''is_valid'', JBool True)], error = None\<rparr>)]"
    using run unfolding run_three_files_second_invalid by (auto simp: newEvents_def start_def)
  have guard: "validateBeforeExecute exampleOptions \<and> \<not> validateOnly exampleOptions"
    by (simp add: exampleOptions_def)
  have h: "\<exists>ev\<in>set (newEvents start s'). failedValidation ev"
    unfolding evs by simp
  from validate_first_failure_executes_nothing[OF run h]
  have none: "filter isExecuted (newEvents start s') = []"
    and flow: "validateBeforeExecute exampleOptions \<and> \<not> validateOnly exampleOptions \<longrightarrow>
       statusOutput out = ''FAILURE'' \<and>
       (\<not> False \<longrightarrow> map eventFile (filter isValidated (newEvents start s')) = ?files)"
    by simp_all
  from flow guard have "statusOutput out = ''FAILURE''"
    "map eventFile (filter isValidated (newEvents start s')) = ?files" by simp_all
  with none have "statusOutput out = ''FAILURE'' \<and>
      length (filter isValidated (newEvents start s')) = 3 \<and>
      length (filter isExecuted (newEvents start s')) = 0"
    using length_map[of eventFile "filter isValidated (newEvents start s')"] by simp
  with run show ?thesis by simp
qed

text \<open>
  The claim as written ends every run under the strategy in which a file fails validation in
  \<open>FAILURE\<close>. With \<open>validate_only\<close> on, the two-phase flow is not taken: a validation that
  does not complete within the timeout (here one minute, twelve requests) fails, nothing is
  executed, and the run ends in \<open>TIMEOUT\<close>.
\<close>

theorem validate_only_timeout_counterexample:
  "list_ex failedValidation (newEvents start (snd (orchestrate
      (worldOf (scriptedThen [taskReply ''v-01''] pendingReply))
      (exampleOptions\<lparr>validateOnly := True, pollingTimeoutSeconds := 60\<rparr>)
      ''validate_first'' False [''/w/01_queues.yaml''] start))) \<and>
   statusOutput (fst (orchestrate
      (worldOf (scriptedThen [taskReply ''v-01''] pendingReply))
      (exampleOptions\<lparr>validateOnly := True, pollingTimeoutSeconds := 60\<rparr>)
      ''validate_first'' False [''/w/01_queues.yaml''] start)) = ''TIMEOUT''"
  by (simp add: run_defs scriptedThen_def pendingReply_def newEvents_def terminalStatus_def
      worstStatus_def worstStep_def priority_def STATUS_PRIORITY_def)

section \<open>The final error\<close>

text \<open>
  The two shapes of a run's outputs: ended after a failed validation phase, or finished by the
  aggregation over the results of the processed files. In both, the reported entries that are
  not \<open>SUCCESS\<close> are those of the operations that failed.
\<close>

lemma no_failedValidation:
  "(\<not> list_ex failedValidation evs) = (filter failedValidation evs = [])"
  by (simp add: list_ex_iff filter_empty_conv)

lemma orchestrate_shape:
  assumes "orchestrate W opts executionStrategy failFast files s = (out, s')"
  shows "(twoPhase executionStrategy opts \<and> list_ex failedValidation (newEvents s s') \<and>
          filter failedEvent (newEvents s s') \<noteq> [] \<and>
          list_all (\<lambda>r. knownStatus (status r))
            (map entryOf (filter failedEvent (newEvents s s'))) \<and>
          out = \<lparr>statusOutput = ''FAILURE'',
                 resultOutput = map (toReport W) (map entryOf (filter failedEvent (newEvents s s'))),
                 thrownError = Some
                   (if length (filter failedEvent (newEvents s s')) = 1
                    then errorMessage (error (hd (map entryOf (filter failedEvent (newEvents s s')))))
                    else failedValidationSummary (length (filter failedEvent (newEvents s s')))
                           (length files))\<rparr>)
       \<or> (\<not> (twoPhase executionStrategy opts \<and> list_ex failedValidation (newEvents s s')) \<and>
          (\<exists>results. list_all (\<lambda>r. knownStatus (status r)) results \<and> out = finish W results \<and>
             filter (\<lambda>r. status r \<noteq> ''SUCCESS'') (map (toReport W) results)
               = map (\<lambda>ev. toReport W (entryOf ev)) (filter failedEvent (newEvents s s'))))"
proof (cases "twoPhase executionStrategy opts")
  case True
  then have run: "orchestrate W opts ''validate_first'' failFast files s = (out, s')"
    and flow: "validateBeforeExecute opts" "\<not> validateOnly opts"
    using assms by (auto simp: twoPhase_def)
  from validate_first_flow[OF flow run] show ?thesis
  proof (elim disjE exE conjE)
    fix evs
    assume failed: "newEvents s s' = evs" "list_all isValidated evs"
      "filter failedValidation evs \<noteq> []"
      "list_all (\<lambda>r. knownStatus (status r)) (map entryOf (filter failedValidation evs))"
      "out = \<lparr>statusOutput = ''FAILURE'',
             resultOutput = map (toReport W) (map entryOf (filter failedValidation evs)),
             thrownError = Some
               (if length (filter failedValidation evs) = 1
                then errorMessage (error (hd (map entryOf (filter failedValidation evs))))
                else failedValidationSummary (length (filter failedValidation evs))
                       (length files))\<rparr>"
    have same: "filter failedEvent evs = filter failedValidation evs"
      using failed(2) by (rule isValidated_failed)
    have some: "list_ex failedValidation evs"
      using failed(3) no_failedValidation[of evs] by auto
    show ?thesis
      unfolding failed(1) same using True some failed(3,4,5) by (intro disjI1) simp
  next
    fix evs1 evs2 results2
    assume passed: "newEvents s s' = evs1 @ evs2" "list_all isValidated evs1"
      "filter failedValidation evs1 = []" "list_all isExecuted evs2"
      "list_all (\<lambda>r. knownStatus (status r)) results2" "out = finish W results2"
      "filter (\<lambda>r. status r \<noteq> ''SUCCESS'') (map (toReport W) results2)
         = map (\<lambda>ev. toReport W (entryOf ev)) (filter failedEvent evs2)"
    have none: "\<not> list_ex failedValidation (evs1 @ evs2)"
      unfolding no_failedValidation using passed(3) isExecuted_not_failed[OF passed(4)] by simp
    have "filter failedEvent evs1 = []"
      using isValidated_failed[OF passed(2)] passed(3) by simp
    then have tie: "filter (\<lambda>r. status r \<noteq> ''SUCCESS'') (map (toReport W) results2)
         = map (\<lambda>ev. toReport W (entryOf ev)) (filter failedEvent (evs1 @ evs2))"
      using passed(7) by simp
    show ?thesis
      unfolding passed(1) using none passed(5,6) tie
      by (intro disjI2 conjI exI[of _ results2]) simp_all
  qed
next
  case False
  then have flow: "\<not> (executionStrategy = ''validate_first'' \<and> \<not> validateOnly opts \<and>
      validateBeforeExecute opts)" by (simp add: twoPhase_def)
  from per_file_flow[OF flow assms] obtain results where res:
    "out = finish W results" "list_all (\<lambda>r. knownStatus (status r)) results"
    "filter (\<lambda>r. status r \<noteq> ''SUCCESS'') (map (toReport W) results)
       = map (\<lambda>ev. toReport W (entryOf ev)) (filter failedEvent (newEvents s s'))"
    by auto
  with False show ?thesis
    by (intro disjI2 conjI exI[of _ results]) simp_all
qed

text \<open>
  The error a run ends with once its files are processed, in terms of the operations that
  failed.
\<close>

lemma hd_entry_message:
  assumes "map (toReport W) rs = map (\<lambda>ev. toReport W (entryOf ev)) evs" "length evs = 1"
  shows "errorMessage (error (hd rs)) = errorMessage (error (entryOf (hd evs)))"
proof -
  from assms(2) obtain ev where evs: "evs = [ev]" by (cases evs) auto
  with assms(1) obtain r where rs: "rs = [r]" by (cases rs) auto
  with assms(1) evs have "toReport W r = toReport W (entryOf ev)" by simp
  then have "errorMessage (error (toReport W r)) = errorMessage (error (toReport W (entryOf ev)))"
    by simp
  then show ?thesis unfolding rs evs by (simp only: errorMessage_toReport list.sel)
qed

lemma orchestrate_error:
  assumes "orchestrate W opts executionStrategy failFast files s = (out, s')"
  shows "((thrownError out \<noteq> None) =
            (statusOutput out = ''FAILURE'' \<or> statusOutput out = ''TIMEOUT'' \<or>
             statusOutput out = ''REVOKED'')) \<and>
         ((thrownError out \<noteq> None) = (filter failedEvent (newEvents s s') \<noteq> [])) \<and>
         filter (\<lambda>r. status r \<noteq> ''SUCCESS'') (resultOutput out)
           = map (\<lambda>ev. toReport W (entryOf ev)) (filter failedEvent (newEvents s s')) \<and>
         (\<forall>msg. thrownError out = Some msg \<longrightarrow>
            msg = (if length (filter failedEvent (newEvents s s')) = 1
                   then errorMessage (error (entryOf (hd (filter failedEvent (newEvents s s')))))
                   else if twoPhase executionStrategy opts \<and>
                           list_ex failedValidation (newEvents s s')
                   then failedValidationSummary (length (filter failedEvent (newEvents s s')))
                          (length files)
                   else failedSummary (length (filter failedEvent (newEvents s s')))
                          (length (resultOutput out))))"
proof -
  let ?failed = "filter failedEvent (newEvents s s')"
  from orchestrate_shape[OF assms] show ?thesis
  proof (elim disjE exE conjE)
    assume phase1: "twoPhase executionStrategy opts" "list_ex failedValidation (newEvents s s')"
      "?failed \<noteq> []"
      "out = \<lparr>statusOutput = ''FAILURE'',
             resultOutput = map (toReport W) (map entryOf ?failed),
             thrownError = Some
               (if length ?failed = 1 then errorMessage (error (hd (map entryOf ?failed)))
                else failedValidationSummary (length ?failed) (length files))\<rparr>"
    have allbad: "filter (\<lambda>r. status r \<noteq> ''SUCCESS'') (map entryOf ?failed) = map entryOf ?failed"
      by (rule filter_failedEvent_entries)
    have ro: "resultOutput out = map (toReport W) (map entryOf ?failed)"
      unfolding phase1(4) by (simp del: map_map)
    have "filter (\<lambda>r. status r \<noteq> ''SUCCESS'') (map (toReport W) (map entryOf ?failed))
        = map (toReport W) (filter (\<lambda>r. status r \<noteq> ''SUCCESS'') (map entryOf ?failed))"
      by (rule filter_toReport)
    also have "\<dots> = map (toReport W) (map entryOf ?failed)"
      by (simp only: allbad)
    also have "\<dots> = map (\<lambda>ev. toReport W (entryOf ev)) ?failed"
      by simp
    finally have bad: "filter (\<lambda>r. status r \<noteq> ''SUCCESS'') (resultOutput out)
        = map (\<lambda>ev. toReport W (entryOf ev)) ?failed"
      unfolding ro .
    have hd1: "length ?failed = 1 \<Longrightarrow> hd (map entryOf ?failed) = entryOf (hd ?failed)"
      by (cases ?failed) simp_all
    show ?thesis
      unfolding bad using phase1(1,2,3) hd1 by (simp add: phase1(4))
  next
    fix results
    assume finished: "\<not> (twoPhase executionStrategy opts \<and> list_ex failedValidation (newEvents s s'))"
      "list_all (\<lambda>r. knownStatus (status r)) results" "out = finish W results"
      "filter (\<lambda>r. status r \<noteq> ''SUCCESS'') (map (toReport W) results)
         = map (\<lambda>ev. toReport W (entryOf ev)) ?failed"
    let ?bad = "filter (\<lambda>r. status r \<noteq> ''SUCCESS'') results"
    have tie: "map (toReport W) ?bad = map (\<lambda>ev. toReport W (entryOf ev)) ?failed"
      using finished(4) by (simp only: filter_toReport)
    have len: "length ?bad = length ?failed"
      using arg_cong[OF tie, of length] by simp
    have out_status: "statusOutput out = worstStatus results"
      and out_result: "resultOutput out = map (toReport W) results"
      using finished(3) by (simp_all add: finish_def Let_def)
    have out_error: "thrownError out =
        (if worstStatus results = ''FAILURE'' \<or> worstStatus results = ''TIMEOUT'' \<or>
            worstStatus results = ''REVOKED''
         then Some (if length ?bad = 1 then errorMessage (error (hd ?bad))
                    else failedSummary (length ?bad) (length results))
         else None)"
      using finished(3) filter_known_failed[OF finished(2)] by (simp add: finish_def Let_def)
    have worst: "(worstStatus results = ''FAILURE'' \<or> worstStatus results = ''TIMEOUT'' \<or>
        worstStatus results = ''REVOKED'') = (?failed \<noteq> [])"
    proof -
      have "(\<exists>r\<in>set results. status r \<noteq> ''SUCCESS'') = (?bad \<noteq> [])"
        by (simp add: filter_empty_conv)
      also have "\<dots> = (?failed \<noteq> [])" using len by auto
      finally show ?thesis using worstStatus_bad_iff[OF finished(2)] by simp
    qed
    have msg: "length ?failed = 1 \<Longrightarrow>
        errorMessage (error (hd ?bad)) = errorMessage (error (entryOf (hd ?failed)))"
      using tie by (rule hd_entry_message)
    have bad: "filter (\<lambda>r. status r \<noteq> ''SUCCESS'') (resultOutput out)
        = map (\<lambda>ev. toReport W (entryOf ev)) ?failed"
      unfolding out_result by (rule finished(4))
    have n: "length (resultOutput out) = length results" unfolding out_result by simp
    show ?thesis
      unfolding bad n out_status out_error worst len using finished(1) msg by auto
  qed
qed

text \<open>
  Claim C8, as amended. Once the pre-flight checks have passed (the inputs read, the
  variables parsed, \<open>api_key\<close> and \<open>base_url\<close> checked, the files resolved), the run ends
  with an error exactly when the aggregate status it sets is \<open>FAILURE\<close>, \<open>TIMEOUT\<close> or
  \<open>REVOKED\<close>, which is exactly when an operation on some file failed; the reported entries
  that are not \<open>SUCCESS\<close> are those of the failed operations, one for each file that is not
  successful; the message of the error is the error of that file when there is exactly one,
  and otherwise a count summary: so many of the resolved files failed validation when the
  two-phase flow ended after its first phase, so many of the reported files failed else.
\<close>

theorem run_error_iff_aggregate_failed:
  assumes "preflight P F = Returned (opts, executionStrategy, failFast, files)"
    and "run P F W s = (r, s')"
  shows "statusSet r \<noteq> None \<and> resultSet r \<noteq> None \<and>
         ((setFailed r \<noteq> None) =
            (statusSet r = Some ''FAILURE'' \<or> statusSet r = Some ''TIMEOUT'' \<or>
             statusSet r = Some ''REVOKED'')) \<and>
         ((setFailed r \<noteq> None) = (filter failedEvent (newEvents s s') \<noteq> [])) \<and>
         (\<forall>reports. resultSet r = Some reports \<longrightarrow>
            filter (\<lambda>x. status x \<noteq> ''SUCCESS'') reports
              = map (\<lambda>ev. toReport W (entryOf ev)) (filter failedEvent (newEvents s s')) \<and>
            (\<forall>msg. setFailed r = Some msg \<longrightarrow>
               msg = (if length (filter failedEvent (newEvents s s')) = 1
                      then errorMessage (error (entryOf (hd (filter failedEvent (newEvents s s')))))
                      else if twoPhase executionStrategy opts \<and>
                              list_ex failedValidation (newEvents s s')
                      then failedValidationSummary (length (filter failedEvent (newEvents s s')))
                             (length files)
                      else failedSummary (length (filter failedEvent (newEvents s s')))
                             (length reports))))"
proof -
  obtain out s1 where orch: "orchestrate W opts executionStrategy failFast files s = (out, s1)"
    by (cases "orchestrate W opts executionStrategy failFast files s")
  from assms orch have r: "r = \<lparr>statusSet = Some (statusOutput out),
      resultSet = Some (resultOutput out), setFailed = thrownError out\<rparr>" and s': "s' = s1"
    by (simp_all add: run_def)
  note e = orchestrate_error[OF orch]
  have e1: "(thrownError out \<noteq> None) =
      (statusOutput out = ''FAILURE'' \<or> statusOutput out = ''TIMEOUT'' \<or>
       statusOutput out = ''REVOKED'')"
    by (rule e[THEN conjunct1])
  have e2: "(thrownError out \<noteq> None) = (filter failedEvent (newEvents s s1) \<noteq> [])"
    by (rule e[THEN conjunct2, THEN conjunct1])
  have e3: "filter (\<lambda>r. status r \<noteq> ''SUCCESS'') (resultOutput out)
      = map (\<lambda>ev. toReport W (entryOf ev)) (filter failedEvent (newEvents s s1))"
    by (rule e[THEN conjunct2, THEN conjunct2, THEN conjunct1])
  note e4 = e[THEN conjunct2, THEN conjunct2, THEN conjunct2]
  show ?thesis
    unfolding r s'
  proof (intro conjI allI impI)
    fix reports msg
    assume "resultSet \<lparr>statusSet = Some (statusOutput out), resultSet = Some (resultOutput out),
        setFailed = thrownError out\<rparr> = Some reports"
      and "setFailed \<lparr>statusSet = Some (statusOutput out), resultSet = Some (resultOutput out),
        setFailed = thrownError out\<rparr> = Some msg"
    then have "reports = resultOutput out" "thrownError out = Some msg" by simp_all
    with e4 show "msg = (if length (filter failedEvent (newEvents s s1)) = 1
        then errorMessage (error (entryOf (hd (filter failedEvent (newEvents s s1)))))
        else if twoPhase executionStrategy opts \<and> list_ex failedValidation (newEvents s s1)
        then failedValidationSummary (length (filter failedEvent (newEvents s s1))) (length files)
        else failedSummary (length (filter failedEvent (newEvents s s1))) (length reports))"
      by simp
  next
    fix reports
    assume "resultSet \<lparr>statusSet = Some (statusOutput out), resultSet = Some (resultOutput out),
        setFailed = thrownError out\<rparr> = Some reports"
    then have "reports = resultOutput out" by simp
    with e3 show "filter (\<lambda>x. status x \<noteq> ''SUCCESS'') reports
        = map (\<lambda>ev. toReport W (entryOf ev)) (filter failedEvent (newEvents s s1))"
      by simp
  qed (use e1 e2 in simp_all)
qed

theorem run_error_iff_aggregate_failed_witness:
  "statusSet (fst (run
      (examplePlatform [(''api_key'', ''key''), (''base_url'', ''https://test.inprod.io/''),
         (''changeset_file'', ''changesets/*.yaml'')])
      (exampleFiles [''changesets/02_flows.yaml'', ''changesets/01_queues.yaml'',
         ''changesets/03_webchat.yaml''])
      (scriptedWorld [taskReply ''v-01'', validReply, taskReply ''e-01'', executedReply,
                      taskReply ''v-02'', invalidReply,
                      taskReply ''v-03'', validReply, taskReply ''e-03'', failedReply ''boom''])
      start)) = Some ''FAILURE'' \<and>
   setFailed (fst (run
      (examplePlatform [(''api_key'', ''key''), (''base_url'', ''https://test.inprod.io/''),
         (''changeset_file'', ''changesets/*.yaml'')])
      (exampleFiles [''changesets/02_flows.yaml'', ''changesets/01_queues.yaml'',
         ''changesets/03_webchat.yaml''])
      (scriptedWorld [taskReply ''v-01'', validReply, taskReply ''e-01'', executedReply,
                      taskReply ''v-02'', invalidReply,
                      taskReply ''v-03'', validReply, taskReply ''e-03'', failedReply ''boom''])
      start)) = Some (failedSummary 2 3)"
proof -
  let ?P = "examplePlatform [(''api_key'', ''key''), (''base_url'', ''https://test.inprod.io/''),
      (''changeset_file'', ''changesets/*.yaml'')]"
  let ?F = "exampleFiles [''changesets/02_flows.yaml'', ''changesets/01_queues.yaml'',
      ''changesets/03_webchat.yaml'']"
  let ?W = "scriptedWorld [taskReply ''v-01'', validReply, taskReply ''e-01'', executedReply,
      taskReply ''v-02'', invalidReply,
      taskReply ''v-03'', validReply, taskReply ''e-03'', failedReply ''boom'']"
  obtain r s' where run: "run ?P ?F ?W start = (r, s')" by (cases "run ?P ?F ?W start")
  have given: "statusSet r = Some ''FAILURE'' \<and> length (the (resultSet r)) = 3 \<and>
      resultSet r \<noteq> None \<and>
      map eventFile (filter failedEvent (newEvents start s'))
        = [''/w/changesets/02_flows.yaml'', ''/w/changesets/03_webchat.yaml'']"
    using run unfolding run_def preflight_three_files prod.case res.case
      run_three_files_two_failed
    by (auto simp: newEvents_def start_def)
  then have two: "length (filter failedEvent (newEvents start s')) = 2"
    using length_map[of eventFile "filter failedEvent (newEvents start s')"] by simp
  from given obtain reports where reports: "resultSet r = Some reports" "length reports = 3"
    by auto
  have flow: "\<not> twoPhase ''per_file'' exampleOptions" by (simp add: twoPhase_def)
  note t = run_error_iff_aggregate_failed[OF preflight_three_files run]
  have err: "(setFailed r \<noteq> None) = (filter failedEvent (newEvents start s') \<noteq> [])"
    by (rule t[THEN conjunct2, THEN conjunct2, THEN conjunct2, THEN conjunct1])
  from t[THEN conjunct2, THEN conjunct2, THEN conjunct2, THEN conjunct2, THEN spec, THEN mp,
      OF reports(1), THEN conjunct2]
  have msg: "\<forall>msg. setFailed r = Some msg \<longrightarrow>
       msg = failedSummary (length (filter failedEvent (newEvents start s'))) (length reports)"
    using two flow by simp
  from err two obtain m where m: "setFailed r = Some m" by (cases "setFailed r") auto
  with msg two reports(2) have "setFailed r = Some (failedSummary 2 3)" by simp
  with given run show ?thesis by simp
qed

text \<open>
  The claim as written lets a run end with an error only when its aggregate status is
  \<open>FAILURE\<close>, \<open>TIMEOUT\<close> or \<open>REVOKED\<close>; a run without \<open>api_key\<close> ends with an error before any
  file is processed, and sets no aggregate status.
\<close>

theorem run_preflight_error_counterexample:
  "run (examplePlatform [(''base_url'', ''https://test.inprod.io''),
          (''changeset_file'', ''changesets/*.yaml'')])
       (exampleFiles [''changesets/01_queues.yaml''])
       (scriptedWorld [taskReply ''v-01'', validReply, taskReply ''e-01'', executedReply]) start
   = (\<lparr>statusSet = None, resultSet = None,
       setFailed = Some ''api_key is required and cannot be empty''\<rparr>, start)"
  by (simp add: run_def preflight_def examplePlatform_def inputOf_def requiredInputOf_def
      noEnv_def notANumber_def orElse_def dropTrailingSlash_def parseVariables_def Let_def)

text \<open>
  Claim C9, as amended. When the \<open>validate_first\<close> strategy ends in \<open>FAILURE\<close> because at
  least one file failed validation, the reported result output contains, in order, a per-file
  validation result for every file whose validation was attempted and failed; a file that
  validated successfully has an entry only when \<open>validate_only\<close> is on, and then every file
  whose validation was attempted has one; in the two-phase flow (\<open>validate_before_execute\<close>
  on, \<open>validate_only\<close> off) it has none.
\<close>

theorem validate_first_reports_failed_validations:
  assumes "orchestrate W opts ''validate_first'' failFast files s = (out, s')"
    and "\<exists>ev\<in>set (newEvents s s'). failedValidation ev"
  shows "resultOutput out =
     map (\<lambda>ev. toReport W (entryOf ev))
       (filter (\<lambda>ev. failedValidation ev \<or> validateOnly opts) (newEvents s s'))"
proof (cases "validateBeforeExecute opts \<and> \<not> validateOnly opts")
  case True
  then have flow: "validateBeforeExecute opts" "\<not> validateOnly opts" by simp_all
  from assms(2) have some: "filter failedValidation (newEvents s s') \<noteq> []"
    by (simp add: filter_empty_conv)
  from validate_first_flow[OF flow assms(1)] show ?thesis
  proof (elim disjE exE conjE)
    fix evs
    assume "newEvents s s' = evs"
      "out = \<lparr>statusOutput = ''FAILURE'',
             resultOutput = map (toReport W) (map entryOf (filter failedValidation evs)),
             thrownError = Some
               (if length (filter failedValidation evs) = 1
                then errorMessage (error (hd (map entryOf (filter failedValidation evs))))
                else failedValidationSummary (length (filter failedValidation evs))
                       (length files))\<rparr>"
    with flow(2) show ?thesis by (simp add: comp_def)
  next
    fix evs1 evs2 results2
    assume "newEvents s s' = evs1 @ evs2" "filter failedValidation evs1 = []"
      "list_all isExecuted evs2"
    with some isExecuted_not_failed[of evs2] show ?thesis by simp
  qed
next
  case False
  then have flow: "\<not> (''validate_first'' = ''validate_first'' \<and> \<not> validateOnly opts \<and>
      validateBeforeExecute opts)" by auto
  from per_file_flow[OF flow assms(1)] obtain results where res:
    "out = finish W results"
    "\<not> validateOnly opts \<and> \<not> validateBeforeExecute opts \<longrightarrow>
       list_all isExecuted (newEvents s s')"
    "validateOnly opts \<longrightarrow>
       map (toReport W) results = map (\<lambda>ev. toReport W (entryOf ev)) (newEvents s s')"
    by auto
  from assms(2) have someV: "filter failedValidation (newEvents s s') \<noteq> []"
    by (simp add: filter_empty_conv)
  have only: "validateOnly opts"
  proof (rule ccontr)
    assume "\<not> validateOnly opts"
    with False res(2) have "list_all isExecuted (newEvents s s')" by simp
    from isExecuted_not_failed[OF this] someV show False by simp
  qed
  have "resultOutput out = map (toReport W) results"
    unfolding res(1) by (simp add: finish_def Let_def)
  with res(3) only show ?thesis by simp
qed

theorem validate_first_reports_failed_validations_witness:
  "resultOutput (fst (orchestrate
      (scriptedWorld [taskReply ''v-01'', validReply, taskReply ''v-02'', invalidReply,
                      taskReply ''v-03'', validReply])
      exampleOptions ''validate_first'' False
      [''/w/01_queues.yaml'', ''/w/02_flows.yaml'', ''/w/03_webchat.yaml''] start))
   = [\<lparr>taskId = None, status = ''FAILURE'', result = JObj [(''is_valid'', JBool False)],
       error = Some ''Changeset validation failed. See validation errors above.'',
       file_path = ''02_flows.yaml''\<rparr>] \<and>
   resultOutput (fst (orchestrate
      (scriptedWorld [taskReply ''v-01'', validReply, taskReply ''v-02'', invalidReply])
      (exampleOptions\<lparr>validateOnly := True\<rparr>) ''validate_first'' False
      [''/w/01_queues.yaml'', ''/w/02_flows.yaml''] start))
   = [\<lparr>taskId = None, status = ''SUCCESS'', result = JObj [(''is_valid'', JBool True)],
       error = None, file_path = ''01_queues.yaml''\<rparr>,
      \<lparr>taskId = None, status = ''FAILURE'', result = JObj [(''is_valid'', JBool False)],
       error = Some ''Changeset validation failed. See validation errors above.'',
       file_path = ''02_flows.yaml''\<rparr>]"
proof -
  let ?W = "scriptedWorld [taskReply ''v-01'', validReply, taskReply ''v-02'', invalidReply,
      taskReply ''v-03'', validReply]"
  let ?files = "[''/w/01_queues.yaml'', ''/w/02_flows.yaml'', ''/w/03_webchat.yaml'']"
  obtain out s' where run: "orchestrate ?W exampleOptions ''validate_first'' False ?files start
      = (out, s')"
    by (cases "orchestrate ?W exampleOptions ''validate_first'' False ?files start")
  have evs: "newEvents start s' =
      [Validated ''/w/01_queues.yaml''
         (Returned \<lparr>taskId = None, status = ''SUCCESS'',
            result = JObj [(''is_valid'', JBool True)], error = None\<rparr>),
       Validated ''/w/02_flows.yaml''
         (Returned \<lparr>taskId = None, status = ''FAILURE'',
            result = JObj [(''is_valid'', JBool False)],
            error = Some ''Changeset validation failed. See validation errors above.''\<rparr>),
       Validated ''/w/03_webchat.yaml''
         (Returned \<lparr>taskId = None, status = ''SUCCESS'',
            result = JObj [(''is_valid'', JBool True)], error = None\<rparr>)]"
    using run unfolding run_three_files_second_invalid by (auto simp: newEvents_def start_def)
  have h: "\<exists>ev\<in>set (newEvents start s'). failedValidation ev"
    unfolding evs by simp
  from validate_first_reports_failed_validations[OF run h]
  have first: "resultOutput out =
     [\<lparr>taskId = None, status = ''FAILURE'', result = JObj [(''is_valid'', JBool False)],
       error = Some ''Changeset validation failed. See validation errors above.'',
       file_path = ''02_flows.yaml''\<rparr>]"
    unfolding evs
    by (simp add: toReport_def scriptedWorld_def worldOf_def lastSegment_def exampleOptions_def)
  let ?W2 = "scriptedWorld [taskReply ''v-01'', validReply, taskReply ''v-02'', invalidReply]"
  let ?only = "exampleOptions\<lparr>validateOnly := True\<rparr>"
  obtain out2 s2 where run2: "orchestrate ?W2 ?only ''validate_first'' False
      [''/w/01_queues.yaml'', ''/w/02_flows.yaml''] start = (out2, s2)"
    by (cases "orchestrate ?W2 ?only ''validate_first'' False
      [''/w/01_queues.yaml'', ''/w/02_flows.yaml''] start")
  have evs2: "newEvents start s2 =
      [Validated ''/w/01_queues.yaml''
         (Returned \<lparr>taskId = None, status = ''SUCCESS'',
            result = JObj [(''is_valid'', JBool True)], error = None\<rparr>),
       Validated ''/w/02_flows.yaml''
         (Returned \<lparr>taskId = None, status = ''FAILURE'',
            result = JObj [(''is_valid'', JBool False)],
            error = Some ''Changeset validation failed. See validation errors above.''\<rparr>)]"
    using run2 unfolding run_two_files_validate_only by (auto simp: newEvents_def start_def)
  have h2: "\<exists>ev\<in>set (newEvents start s2). failedValidation ev"
    unfolding evs2 by simp
  from validate_first_reports_failed_validations[OF run2 h2]
  have second: "resultOutput out2 =
     [\<lparr>taskId = None, status = ''SUCCESS'', result = JObj [(''is_valid'', JBool True)],
       error = None, file_path = ''01_queues.yaml''\<rparr>,
      \<lparr>taskId = None, status = ''FAILURE'', result = JObj [(''is_valid'', JBool False)],
       error = Some ''Changeset validation failed. See validation errors above.'',
       file_path = ''02_flows.yaml''\<rparr>]"
    unfolding evs2
    by (simp add: toReport_def scriptedWorld_def worldOf_def lastSegment_def)
  from first second run run2 show ?thesis by simp
qed

text \<open>
  The claim as written has the output hold a result for every file whose validation was
  attempted; in the run of two files, the first valid and the second not, both validations
  are attempted and the output holds the second file only.
\<close>

theorem validate_first_omits_successful_validation_counterexample:
  "map eventFile (newEvents start (snd (orchestrate
      (scriptedWorld [taskReply ''v-01'', validReply, taskReply ''v-02'', invalidReply])
      exampleOptions ''validate_first'' False [''/w/01_queues.yaml'', ''/w/02_flows.yaml''] start)))
     = [''/w/01_queues.yaml'', ''/w/02_flows.yaml''] \<and>
   statusOutput (fst (orchestrate
      (scriptedWorld [taskReply ''v-01'', validReply, taskReply ''v-02'', invalidReply])
      exampleOptions ''validate_first'' False [''/w/01_queues.yaml'', ''/w/02_flows.yaml''] start))
     = ''FAILURE'' \<and>
   map file_path (resultOutput (fst (orchestrate
      (scriptedWorld [taskReply ''v-01'', validReply, taskReply ''v-02'', invalidReply])
      exampleOptions ''validate_first'' False [''/w/01_queues.yaml'', ''/w/02_flows.yaml''] start)))
     = [''02_flows.yaml'']"
  unfolding run_two_files_second_invalid by (simp add: newEvents_def start_def)

text \<open>
  Claim C10. The two-phase flow is taken only with \<open>validate_before_execute\<close> on and
  \<open>validate_only\<close> off: a run with strategy \<open>validate_first\<close> and \<open>validate_before_execute\<close>
  off, or \<open>validate_only\<close> on, is the run of the \<open>per_file\<close> strategy, the loop over
  \<open>processSingleFile\<close> followed by the aggregation; with both toggles off no file is validated
  at all, and with \<open>validate_only\<close> on no file is executed, so no validate-all phase precedes
  an execution.
\<close>

theorem validate_first_falls_back_to_per_file:
  assumes "\<not> validateBeforeExecute opts \<or> validateOnly opts"
  shows "orchestrate W opts ''validate_first'' failFast files s
           = orchestrate W opts ''per_file'' failFast files s \<and>
         orchestrate W opts ''validate_first'' failFast files s
           = (case processLoop W opts failFast files [] s of
                (results, s1) \<Rightarrow> (finish W results, s1)) \<and>
         (\<not> validateOnly opts \<longrightarrow>
            filter isValidated
              (newEvents s (snd (orchestrate W opts ''validate_first'' failFast files s))) = []) \<and>
         (validateOnly opts \<longrightarrow>
            filter isExecuted
              (newEvents s (snd (orchestrate W opts ''validate_first'' failFast files s))) = [])"
proof -
  have eq: "orchestrate W opts ''validate_first'' failFast files s
      = (case processLoop W opts failFast files [] s of (results, s1) \<Rightarrow> (finish W results, s1))"
    using assms by (auto simp: orchestrate_def)
  have per: "orchestrate W opts ''per_file'' failFast files s
      = (case processLoop W opts failFast files [] s of (results, s1) \<Rightarrow> (finish W results, s1))"
    by (simp add: orchestrate_def)
  obtain results s1 where pl: "processLoop W opts failFast files [] s = (results, s1)"
    by (cases "processLoop W opts failFast files [] s")
  from processLoop_sound[OF pl] obtain evs where evs:
    "events s1 = events s @ evs"
    "\<not> validateOnly opts \<and> \<not> validateBeforeExecute opts \<longrightarrow> list_all isExecuted evs"
    "validateOnly opts \<longrightarrow> list_all isValidated evs" by auto
  have new: "newEvents s (snd (orchestrate W opts ''validate_first'' failFast files s)) = evs"
    unfolding eq pl using evs(1) by (simp add: newEvents_append)
  have a: "\<not> validateOnly opts \<longrightarrow> filter isValidated evs = []"
    using assms evs(2) isExecuted_not_validated[of evs] by auto
  have b: "validateOnly opts \<longrightarrow> filter isExecuted evs = []"
    using evs(3) isValidated_not_executed[of evs] by auto
  show ?thesis
    unfolding new using eq per a b by simp
qed

theorem validate_first_falls_back_to_per_file_witness:
  "map eventFile (filter isExecuted (newEvents start (snd (orchestrate
      (scriptedWorld [taskReply ''e-01'', executedReply, taskReply ''e-02'', executedReply])
      (exampleOptions\<lparr>validateBeforeExecute := False\<rparr>) ''validate_first'' False
      [''/w/01_queues.yaml'', ''/w/02_flows.yaml''] start))))
     = [''/w/01_queues.yaml'', ''/w/02_flows.yaml''] \<and>
   filter isValidated (newEvents start (snd (orchestrate
      (scriptedWorld [taskReply ''e-01'', executedReply, taskReply ''e-02'', executedReply])
      (exampleOptions\<lparr>validateBeforeExecute := False\<rparr>) ''validate_first'' False
      [''/w/01_queues.yaml'', ''/w/02_flows.yaml''] start))) = []"
proof -
  let ?opts = "exampleOptions\<lparr>validateBeforeExecute := False\<rparr>"
  have h: "\<not> validateBeforeExecute ?opts \<or> validateOnly ?opts" by simp
  have v: "\<not> validateOnly ?opts" by (simp add: exampleOptions_def)
  from validate_first_falls_back_to_per_file[OF h,
      of "scriptedWorld [taskReply ''e-01'', executedReply, taskReply ''e-02'', executedReply]"
         False "[''/w/01_queues.yaml'', ''/w/02_flows.yaml'']" start,
      THEN conjunct2, THEN conjunct2, THEN conjunct1, THEN mp, OF v]
  have none: "filter isValidated (newEvents start (snd (orchestrate
      (scriptedWorld [taskReply ''e-01'', executedReply, taskReply ''e-02'', executedReply])
      ?opts ''validate_first'' False [''/w/01_queues.yaml'', ''/w/02_flows.yaml''] start))) = []" .
  have "map eventFile (filter isExecuted (newEvents start (snd (orchestrate
      (scriptedWorld [taskReply ''e-01'', executedReply, taskReply ''e-02'', executedReply])
      ?opts ''validate_first'' False [''/w/01_queues.yaml'', ''/w/02_flows.yaml''] start))))
     = [''/w/01_queues.yaml'', ''/w/02_flows.yaml'']"
    unfolding run_two_files_no_validation by (simp add: newEvents_def start_def)
  with none show ?thesis by simp
qed

end
